theory Spec2Isabelle
  imports Complex_Main "HOL-Library.Word" "HOL-Library.List_Lexorder" "HOL-Library.Signed_Division"
    "HOL-Library.Multiset" "HOL-Library.AList"
begin

section \<open>Primitive types of governance.h\<close>

text \<open>
  A \<open>uint256\<close> (and the 160-bit \<open>CKeyID\<close>) is a fixed-size blob of bytes. It is modelled
  by the list of its bytes in memory order. Its \<open>operator<\<close> is \<open>memcmp\<close> on the blob, which
  on byte lists of one length is the lexicographic order of \<open>HOL-Library.List_Lexorder\<close>;
  \<open>UintToArith256\<close> reads the same bytes as a little-endian number.
\<close>

type_synonym byte = "8 word"
type_synonym uint256 = "byte list"
type_synonym CKeyID = "byte list"
type_synonym CScript = "byte list"
type_synonym VinHash = "byte list"

text \<open>
  \<open>CAmount\<close> is \<open>int64_t\<close> and heights, counts and tallies are \<open>int\<close>. Signed overflow is
  undefined behaviour in C++, so sums and differences are taken in the mathematical integers;
  the narrowing \<open>static_cast<int>\<close> and the truncating division are written out.
\<close>

type_synonym CAmount = int

definition uint256_null :: uint256 where
  "uint256_null = replicate 32 0"

fun UintToArith256 :: "uint256 \<Rightarrow> nat" where
  "UintToArith256 [] = 0"
| "UintToArith256 (b # bs) = unat b + 256 * UintToArith256 bs"

definition static_cast_int :: "int \<Rightarrow> int" where
  "static_cast_int x = (x + 2 ^ 31) mod 2 ^ 32 - 2 ^ 31"

record COutPoint =
  op_hash :: uint256
  op_n :: "32 word"

record CTxIn =
  prevout :: COutPoint

record CTxOut =
  nValue :: CAmount
  scriptPubKey :: CScript

text \<open>
  A transaction with its hash (\<open>GetHash()\<close>), and a block with its time
  (\<open>GetBlockTime()\<close>).
\<close>

record CTransaction =
  tx_hash :: uint256
  vin :: "CTxIn list"
  vout :: "CTxOut list"

record CBlock =
  vtx :: "CTransaction list"
  nTime :: int

section \<open>The environment: collaborators outside governance.h\<close>

text \<open>
  The hasher, the key recovery, the chain lookup and the address codec are not part of the
  governance header. They are parameters of the model.
  \<^item> \<open>hash256 bs\<close> is \<open>CHashWriter::GetHash()\<close> after the bytes \<open>bs\<close> were written;
  \<^item> \<open>recoverCompact h sig\<close> is the public key left by \<open>CPubKey::RecoverCompact\<close>;
  \<^item> \<open>pubkeyID\<close> is \<open>CPubKey::GetID\<close>;
  \<^item> \<open>getKeyIDForUTXO u\<close> is \<open>GetKeyIDForUTXO\<close> together with \<open>tx->vout[utxo.n].nValue\<close>;
  \<^item> \<open>validDestination a\<close> is \<open>IsValidDestination(DecodeDestination(a))\<close>;
  \<^item> \<open>scriptForAddress a\<close> is \<open>GetScriptForDestination(DecodeDestination(a))\<close>;
  \<^item> \<open>MAX_OP_RETURN_RELAY\<close> is the policy constant of that name;
  \<^item> \<open>IsCoinBase\<close> and \<open>IsProofOfStake\<close> are the methods of \<open>CTransaction\<close> and
    \<open>CBlock\<close>;
  \<^item> \<open>IsVoteSpent u\<close> is \<open>IsVoteSpent(v, false)\<close> for a vote \<open>v\<close> on the utxo \<open>u\<close>, a
    lookup in the coin cache.
\<close>

record Env =
  hash256 :: "byte list \<Rightarrow> uint256"
  recoverCompact :: "uint256 \<Rightarrow> byte list \<Rightarrow> byte list"
  pubkeyID :: "byte list \<Rightarrow> CKeyID"
  getKeyIDForUTXO :: "COutPoint \<Rightarrow> (CKeyID \<times> CAmount) option"
  validDestination :: "string \<Rightarrow> bool"
  scriptForAddress :: "string \<Rightarrow> CScript"
  MAX_OP_RETURN_RELAY :: nat
  IsCoinBase :: "CTransaction \<Rightarrow> bool"
  IsProofOfStake :: "CBlock \<Rightarrow> bool"
  IsVoteSpent :: "COutPoint \<Rightarrow> bool"

text \<open>
  \<open>Consensus::Params\<close>, the fields the governance code reads. \<open>GetBlockSubsidy\<close> is the
  function member, already applied to the parameters themselves.
\<close>

record Params =
  superblock :: int
  governanceBlock :: int
  proposalCutoff :: int
  votingCutoff :: int
  proposalMinAmount :: CAmount
  proposalMaxAmount :: CAmount
  voteMinUtxoAmount :: CAmount
  voteBalance :: CAmount
  GetBlockSubsidy :: "int \<Rightarrow> CAmount"

definition NETWORK_VERSION :: byte where "NETWORK_VERSION = 1"
definition NONE :: byte where "NONE = 0"
definition PROPOSAL :: byte where "PROPOSAL = 1"
definition VOTE :: byte where "VOTE = 2"
definition VINHASH_SIZE :: nat where "VINHASH_SIZE = 12"
definition NO :: byte where "NO = 0"
definition YES :: byte where "YES = 1"
definition ABSTAIN :: byte where "ABSTAIN = 2"

section \<open>Serialisation\<close>

text \<open>
  Modelled from the spec: the stream operators of \<open>CDataStream\<close> and \<open>CHashWriter\<close> are
  not in the governance header. Section 4.1 gives the layout: fixed little-endian integers
  and byte strings behind a variable-length integer prefix. The prefix is the compact size
  of the serialisation framework (one byte below 253, else a marker byte 253, 254 or 255
  and 2, 4 or 8 little-endian bytes).
\<close>

fun le_bytes :: "nat \<Rightarrow> nat \<Rightarrow> byte list" where
  "le_bytes 0 x = []"
| "le_bytes (Suc k) x = of_nat (x mod 256) # le_bytes k (x div 256)"

definition ser_uint8 :: "byte \<Rightarrow> byte list" where
  "ser_uint8 b = [b]"

definition ser_uint32 :: "32 word \<Rightarrow> byte list" where
  "ser_uint32 w = le_bytes 4 (unat w)"

definition ser_int32 :: "int \<Rightarrow> byte list" where
  "ser_int32 x = le_bytes 4 (nat (x mod 2 ^ 32))"

definition ser_int64 :: "int \<Rightarrow> byte list" where
  "ser_int64 x = le_bytes 8 (nat (x mod 2 ^ 64))"

definition WriteCompactSize :: "nat \<Rightarrow> byte list" where
  "WriteCompactSize n =
     (if n < 253 then [of_nat n]
      else if n \<le> 65535 then 253 # le_bytes 2 n
      else if n \<le> 4294967295 then 254 # le_bytes 4 n
      else 255 # le_bytes 8 n)"

definition ser_string :: "string \<Rightarrow> byte list" where
  "ser_string s = WriteCompactSize (length s) @ map of_char s"

definition ser_vector :: "byte list \<Rightarrow> byte list" where
  "ser_vector v = WriteCompactSize (length v) @ v"

definition ser_COutPoint :: "COutPoint \<Rightarrow> byte list" where
  "ser_COutPoint u = op_hash u @ ser_uint32 (op_n u)"

section \<open>Proposal\<close>

record Proposal =
  p_version :: byte
  p_type :: byte
  p_name :: string
  p_superblock :: int
  p_amount :: CAmount
  p_address :: string
  p_url :: string
  p_description :: string
  p_blockNumber :: int

definition Proposal_default :: Proposal where
  "Proposal_default =
     \<lparr>p_version = NETWORK_VERSION, p_type = PROPOSAL, p_name = [], p_superblock = 0,
      p_amount = 0, p_address = [], p_url = [], p_description = [], p_blockNumber = 0\<rparr>"

definition Proposal_isNull :: "Proposal \<Rightarrow> bool" where
  "Proposal_isNull p = (p_superblock p = 0)"

text \<open>The bytes \<open>Proposal::getHash\<close> writes to its \<open>CHashWriter\<close>, in the order of line 282.\<close>

definition Proposal_hashBytes :: "Proposal \<Rightarrow> byte list" where
  "Proposal_hashBytes p =
     ser_uint8 (p_version p) @ ser_uint8 (p_type p) @ ser_string (p_name p)
     @ ser_int32 (p_superblock p) @ ser_int64 (p_amount p) @ ser_string (p_address p)
     @ ser_string (p_url p) @ ser_string (p_description p)"

definition Proposal_getHash :: "Env \<Rightarrow> Proposal \<Rightarrow> uint256" where
  "Proposal_getHash env p = hash256 env (Proposal_hashBytes p)"

text \<open>The bytes \<open>Proposal::SerializationOp\<close> writes, in the order of lines 290 to 297.\<close>

definition Proposal_Serialize :: "Proposal \<Rightarrow> byte list" where
  "Proposal_Serialize p =
     ser_uint8 (p_version p) @ ser_uint8 (p_type p) @ ser_int32 (p_superblock p)
     @ ser_int64 (p_amount p) @ ser_string (p_address p) @ ser_string (p_name p)
     @ ser_string (p_url p) @ ser_string (p_description p)"

section \<open>Vote\<close>

record Vote =
  v_version :: byte
  v_type :: byte
  v_proposal :: uint256
  v_vote :: byte
  v_vinhash :: VinHash
  v_signature :: "byte list"
  v_utxo :: COutPoint
  v_pubkey :: "byte list"
  v_outpoint :: COutPoint
  v_time :: int
  v_amount :: CAmount
  v_keyid :: CKeyID
  v_blockNumber :: int
  v_spentBlock :: int
  v_spentHash :: uint256

definition COutPoint_null :: COutPoint where
  "COutPoint_null = \<lparr>op_hash = uint256_null, op_n = -1\<rparr>"

text \<open>
  \<open>Vote()\<close>: the member initialisers of lines 631 to 647. The array \<open>vinhash\<close> has no
  initialiser; the model takes it zeroed.
\<close>

definition Vote_default :: Vote where
  "Vote_default =
     \<lparr>v_version = NETWORK_VERSION, v_type = VOTE, v_proposal = uint256_null, v_vote = ABSTAIN,
      v_vinhash = replicate VINHASH_SIZE 0, v_signature = [], v_utxo = COutPoint_null,
      v_pubkey = [], v_outpoint = COutPoint_null, v_time = 0, v_amount = 0,
      v_keyid = replicate 20 0, v_blockNumber = 0, v_spentBlock = 0,
      v_spentHash = uint256_null\<rparr>"

definition Vote_spend :: "Vote \<Rightarrow> int \<Rightarrow> uint256 \<Rightarrow> Vote" where
  "Vote_spend v block txhash = v\<lparr>v_spentBlock := block, v_spentHash := txhash\<rparr>"

definition Vote_unspend :: "Vote \<Rightarrow> int \<Rightarrow> uint256 \<Rightarrow> Vote \<times> bool" where
  "Vote_unspend v block txhash =
     (if v_spentBlock v = block \<and> v_spentHash v = txhash
      then (v\<lparr>v_spentBlock := 0, v_spentHash := uint256_null\<rparr>, True)
      else (v, False))"

definition Vote_spent :: "Vote \<Rightarrow> bool" where
  "Vote_spent v = (v_spentBlock v > 0)"

definition Vote_hashBytes :: "Vote \<Rightarrow> byte list" where
  "Vote_hashBytes v =
     ser_uint8 (v_version v) @ ser_uint8 (v_type v) @ v_proposal v @ ser_COutPoint (v_utxo v)"

definition Vote_getHash :: "Env \<Rightarrow> Vote \<Rightarrow> uint256" where
  "Vote_getHash env v = hash256 env (Vote_hashBytes v)"

definition Vote_sigHashBytes :: "Vote \<Rightarrow> byte list" where
  "Vote_sigHashBytes v =
     ser_uint8 (v_version v) @ ser_uint8 (v_type v) @ v_proposal v @ ser_uint8 (v_vote v)
     @ ser_COutPoint (v_utxo v) @ v_vinhash v"

definition Vote_sigHash :: "Env \<Rightarrow> Vote \<Rightarrow> uint256" where
  "Vote_sigHash env v = hash256 env (Vote_sigHashBytes v)"

definition isValidVoteType :: "byte \<Rightarrow> bool" where
  "isValidVoteType voteType = (voteType \<ge> NO \<and> voteType \<le> ABSTAIN)"

definition Vote_isValid :: "Env \<Rightarrow> Params \<Rightarrow> Vote \<Rightarrow> bool" where
  "Vote_isValid env params v =
     (if \<not> (v_version v = NETWORK_VERSION \<and> v_type v = VOTE \<and> isValidVoteType (v_vote v))
      then False
      else if v_amount v < voteMinUtxoAmount params then False
      else if v_keyid v = replicate 20 0 then False
      else if pubkeyID env (v_pubkey v) \<noteq> v_keyid v then False
      else True)"

definition Vote_isValid_vin :: "Env \<Rightarrow> VinHash list \<Rightarrow> Params \<Rightarrow> Vote \<Rightarrow> bool" where
  "Vote_isValid_vin env vinHashes params v =
     (if \<not> Vote_isValid env params v then False else v_vinhash v \<in> set vinHashes)"

section \<open>The state store\<close>

text \<open>
  The three \<open>std::unordered_map\<close> members, as association lists. The iteration order of an
  unordered map is unspecified; the model iterates in list order. An unordered map holds
  each key once (\<open>umap_wf\<close>).
\<close>

type_synonym VoteMap = "(uint256 \<times> Vote) list"

record Governance =
  proposals :: "(uint256 \<times> Proposal) list"
  votes :: VoteMap
  sbvotes :: "(int \<times> VoteMap) list"

definition umap_count :: "('k \<times> 'v) list \<Rightarrow> 'k \<Rightarrow> bool" where
  "umap_count m k = (map_of m k \<noteq> None)"

text \<open>\<open>m[k]\<close>: the element under \<open>k\<close>, a value-initialised one when the key is new.\<close>

definition umap_index :: "'v \<Rightarrow> ('k \<times> 'v) list \<Rightarrow> 'k \<Rightarrow> 'v" where
  "umap_index dflt m k = (case map_of m k of Some v \<Rightarrow> v | None \<Rightarrow> dflt)"

definition umap_wf :: "('k \<times> 'v) list \<Rightarrow> bool" where
  "umap_wf m = distinct (map fst m)"

definition Governance_wf :: "Governance \<Rightarrow> bool" where
  "Governance_wf st =
     (umap_wf (proposals st) \<and> umap_wf (votes st) \<and> umap_wf (sbvotes st)
      \<and> list_all (\<lambda>item. umap_wf (snd item)) (sbvotes st))"

definition reset :: "Governance \<Rightarrow> Governance" where
  "reset st = \<lparr>proposals = [], votes = [], sbvotes = []\<rparr>"

definition hasProposal :: "Governance \<Rightarrow> uint256 \<Rightarrow> bool" where
  "hasProposal st h = umap_count (proposals st) h"

definition hasProposal_before :: "Governance \<Rightarrow> uint256 \<Rightarrow> int \<Rightarrow> bool" where
  "hasProposal_before st h blockNumber =
     (umap_count (proposals st) h
      \<and> p_blockNumber (umap_index Proposal_default (proposals st) h) < blockNumber)"

definition getProposal :: "Governance \<Rightarrow> uint256 \<Rightarrow> Proposal" where
  "getProposal st h =
     (if umap_count (proposals st) h then umap_index Proposal_default (proposals st) h
      else Proposal_default)"

definition getProposals :: "Governance \<Rightarrow> Proposal list" where
  "getProposals st = map snd (proposals st)"

definition getProposals_superblock :: "Governance \<Rightarrow> int \<Rightarrow> Proposal list" where
  "getProposals_superblock st sb =
     map snd (filter (\<lambda>item. p_superblock (snd item) = sb) (proposals st))"

definition getProposalsSince :: "Governance \<Rightarrow> int \<Rightarrow> Proposal list" where
  "getProposalsSince st since =
     map snd (filter (\<lambda>item. p_superblock (snd item) \<ge> since) (proposals st))"

subsection \<open>Vote queries\<close>

definition getVotes :: "Governance \<Rightarrow> Vote list" where
  "getVotes st = map snd (filter (\<lambda>item. \<not> Vote_spent (snd item)) (votes st))"

definition getVotes_proposal :: "Governance \<Rightarrow> uint256 \<Rightarrow> Vote list" where
  "getVotes_proposal st proposalHash =
     (if \<not> umap_count (proposals st) proposalHash then []
      else let proposal = umap_index Proposal_default (proposals st) proposalHash in
        if \<not> umap_count (sbvotes st) (p_superblock proposal) then []
        else let vs = umap_index [] (sbvotes st) (p_superblock proposal) in
          map snd (filter (\<lambda>item. v_proposal (snd item) = proposalHash
                                   \<and> \<not> Vote_spent (snd item)) vs))"

text \<open>
  A \<open>Vote*\<close> of \<open>getMutableSBVotes\<close> points at an element of \<open>sbvotes\<close>: the model's pointer
  is the pair of keys that reaches it. \<open>deref\<close> is \<open>None\<close> on a pointer that reaches nothing.
\<close>

type_synonym VotePtr = "int \<times> uint256"

definition deref :: "Governance \<Rightarrow> VotePtr \<Rightarrow> Vote option" where
  "deref st ptr =
     (case map_of (sbvotes st) (fst ptr) of None \<Rightarrow> None
      | Some vs \<Rightarrow> map_of vs (snd ptr))"

definition assign :: "Governance \<Rightarrow> VotePtr \<Rightarrow> Vote \<Rightarrow> Governance" where
  "assign st ptr v =
     st\<lparr>sbvotes := AList.update (fst ptr)
          (AList.update (snd ptr) v (umap_index [] (sbvotes st) (fst ptr))) (sbvotes st)\<rparr>"

definition getMutableSBVotes :: "Governance \<Rightarrow> uint256 \<Rightarrow> VotePtr list" where
  "getMutableSBVotes st proposalHash =
     (if \<not> umap_count (proposals st) proposalHash then []
      else let proposal = umap_index Proposal_default (proposals st) proposalHash in
        if \<not> umap_count (sbvotes st) (p_superblock proposal) then []
        else let vs = umap_index [] (sbvotes st) (p_superblock proposal) in
          map (\<lambda>item. (p_superblock proposal, fst item))
            (filter (\<lambda>item. v_proposal (snd item) = proposalHash
                              \<and> \<not> Vote_spent (snd item)) vs))"

definition getVotes_superblock :: "Governance \<Rightarrow> int \<Rightarrow> Vote list" where
  "getVotes_superblock st sb =
     (if \<not> umap_count (sbvotes st) sb then []
      else map snd (filter (\<lambda>item. \<not> Vote_spent (snd item)) (umap_index [] (sbvotes st) sb)))"

subsection \<open>Spending and unspending\<close>

text \<open>
  \<open>spendVote(Vote*, ...)\<close> of line 1151 and \<open>unspendVote(Vote*, ...)\<close> of line 1199. The
  result is \<open>None\<close> when the pointer reaches nothing (undefined behaviour in C++).
\<close>

definition spendVote_ptr :: "Env \<Rightarrow> Governance \<Rightarrow> VotePtr \<Rightarrow> int \<Rightarrow> uint256 \<Rightarrow> Governance option" where
  "spendVote_ptr env st ptr block txhash =
     (case deref st ptr of None \<Rightarrow> None
      | Some vote \<Rightarrow>
          if \<not> umap_count (proposals st) (v_proposal vote) then Some st
          else if block > p_superblock (umap_index Proposal_default (proposals st) (v_proposal vote))
          then Some st
          else
            let vote' = Vote_spend vote block txhash;
                st1 = assign st ptr vote';
                h = Vote_getHash env vote';
                vv = umap_index Vote_default (votes st1) h
            in Some (st1\<lparr>votes := AList.update h (Vote_spend vv block txhash) (votes st1)\<rparr>))"

definition unspendVote_ptr :: "Env \<Rightarrow> Governance \<Rightarrow> VotePtr \<Rightarrow> int \<Rightarrow> uint256 \<Rightarrow> Governance option" where
  "unspendVote_ptr env st ptr block txhash =
     (case deref st ptr of None \<Rightarrow> None
      | Some vote \<Rightarrow>
          if \<not> umap_count (proposals st) (v_proposal vote) then Some st
          else if block > p_superblock (umap_index Proposal_default (proposals st) (v_proposal vote))
          then Some st
          else
            let vote' = fst (Vote_unspend vote block txhash);
                st1 = assign st ptr vote';
                voteHash = Vote_getHash env vote'
            in if umap_count (votes st1) voteHash
               then Some (st1\<lparr>votes := AList.update voteHash
                      (fst (Vote_unspend (umap_index Vote_default (votes st1) voteHash) block txhash))
                      (votes st1)\<rparr>)
               else Some st1)"

text \<open>
  \<open>spendVote(Vote&, ...)\<close> of line 1172 and \<open>unspendVote(Vote&, ...)\<close> of line 1222: the
  caller's vote is updated and returned beside the state.
\<close>

definition spendVote_ref :: "Env \<Rightarrow> Governance \<Rightarrow> Vote \<Rightarrow> int \<Rightarrow> uint256 \<Rightarrow> Governance \<times> Vote" where
  "spendVote_ref env st vote block txhash =
     (if \<not> umap_count (proposals st) (v_proposal vote) then (st, vote)
      else
        let sb = p_superblock (umap_index Proposal_default (proposals st) (v_proposal vote)) in
        if block > sb then (st, vote)
        else
          let vote' = Vote_spend vote block txhash in
          if umap_count (sbvotes st) sb then
            let mv = umap_index [] (sbvotes st) sb; voteHash = Vote_getHash env vote' in
            if umap_count mv voteHash
            then (assign st (sb, voteHash)
                    (Vote_spend (umap_index Vote_default mv voteHash) block txhash), vote')
            else (st, vote')
          else (st, vote'))"

definition unspendVote_ref :: "Env \<Rightarrow> Governance \<Rightarrow> Vote \<Rightarrow> int \<Rightarrow> uint256 \<Rightarrow> Governance \<times> Vote" where
  "unspendVote_ref env st vote block txhash =
     (if \<not> umap_count (proposals st) (v_proposal vote) then (st, vote)
      else
        let sb = p_superblock (umap_index Proposal_default (proposals st) (v_proposal vote)) in
        if block > sb then (st, vote)
        else
          let vote' = fst (Vote_unspend vote block txhash) in
          if umap_count (sbvotes st) sb then
            let mv = umap_index [] (sbvotes st) sb; voteHash = Vote_getHash env vote' in
            if umap_count mv voteHash
            then (assign st (sb, voteHash)
                    (fst (Vote_unspend (umap_index Vote_default mv voteHash) block txhash)), vote')
            else (st, vote')
          else (st, vote'))"

section \<open>Ordered containers\<close>

text \<open>
  A \<open>std::set<T>\<close> whose \<open>operator<\<close> compares a key of the element (\<open>getHash()\<close> for
  votes and proposals) is the list of its elements in key order. \<open>insert\<close> leaves the set
  as it is when an element with an equivalent key is present.
\<close>

definition oset_count :: "('a \<Rightarrow> 'k) \<Rightarrow> 'a list \<Rightarrow> 'a \<Rightarrow> bool" where
  "oset_count kf s x = (kf x \<in> set (map kf s))"

definition oset_insert :: "('a \<Rightarrow> 'k::linorder) \<Rightarrow> 'a \<Rightarrow> 'a list \<Rightarrow> 'a list" where
  "oset_insert kf x s = (if oset_count kf s x then s else insort_key kf x s)"

definition oset_insert_range :: "('a \<Rightarrow> 'k::linorder) \<Rightarrow> 'a list \<Rightarrow> 'a list \<Rightarrow> 'a list" where
  "oset_insert_range kf xs s = fold (oset_insert kf) xs s"

text \<open>
  A \<open>std::map<K, V>\<close> is the list of its pairs in key order; \<open>kf\<close> is the key the
  comparison of \<open>K\<close> looks at. \<open>m[k] = v\<close> keeps the key object of an entry that is
  already there.
\<close>

fun omap_assign :: "('a \<Rightarrow> 'k::linorder) \<Rightarrow> 'a \<Rightarrow> 'v \<Rightarrow> ('a \<times> 'v) list \<Rightarrow> ('a \<times> 'v) list" where
  "omap_assign kf a v [] = [(a, v)]"
| "omap_assign kf a v (e # m) =
     (if kf a < kf (fst e) then (a, v) # e # m
      else if kf a = kf (fst e) then (fst e, v) # m
      else e # omap_assign kf a v m)"

section \<open>Tally\<close>

record Tally =
  t_cyes :: CAmount
  t_cno :: CAmount
  t_cabstain :: CAmount
  t_yes :: int
  t_no :: int
  t_abstain :: int

definition Tally_default :: Tally where
  "Tally_default = \<lparr>t_cyes = 0, t_cno = 0, t_cabstain = 0, t_yes = 0, t_no = 0, t_abstain = 0\<rparr>"

definition netyes :: "Tally \<Rightarrow> int" where
  "netyes t = t_yes t - t_no t"

text \<open>The two search containers of \<open>getTally\<close>, filled by the loop of lines 1639 to 1647.\<close>

definition tally_prep :: "Env \<Rightarrow> Vote \<Rightarrow>
    (uint256 \<times> Vote list) list \<times> (CKeyID \<times> Vote list) list \<Rightarrow>
    (uint256 \<times> Vote list) list \<times> (CKeyID \<times> Vote list) list" where
  "tally_prep env vote acc =
     (let userVotes = fst acc; userVotesDest = snd acc;
          txh = op_hash (v_outpoint vote);
          dest = pubkeyID env (v_pubkey vote)
      in (omap_assign id txh (oset_insert (Vote_getHash env) vote (umap_index [] userVotes txh)) userVotes,
          omap_assign id dest (oset_insert (Vote_getHash env) vote (umap_index [] userVotesDest dest))
            userVotesDest))"

text \<open>
  The votes one pass of the loop of line 1655 counts: the votes of the transaction, the
  votes of every destination one of them pays to, less the votes counted before.
\<close>

definition tally_allUnique :: "Env \<Rightarrow> (CKeyID \<times> Vote list) list \<Rightarrow> Vote list \<Rightarrow> Vote list \<Rightarrow> Vote list" where
  "tally_allUnique env userVotesDest txVotes counted =
     (let allUnique0 = oset_insert_range (Vote_getHash env) txVotes [];
          allUnique1 = fold (\<lambda>vote acc. oset_insert_range (Vote_getHash env)
                              (umap_index [] userVotesDest (pubkeyID env (v_pubkey vote))) acc)
                         txVotes allUnique0
      in filter (\<lambda>v. \<not> oset_count (Vote_getHash env) counted v) allUnique1)"

text \<open>The sub-tally of one user, lines 1685 to 1703.\<close>

definition tally_add :: "Vote \<Rightarrow> Tally \<Rightarrow> Tally" where
  "tally_add vote tally =
     (if v_vote vote = YES then tally\<lparr>t_cyes := t_cyes tally + v_amount vote\<rparr>
      else if v_vote vote = NO then tally\<lparr>t_cno := t_cno tally + v_amount vote\<rparr>
      else if v_vote vote = ABSTAIN then tally\<lparr>t_cabstain := t_cabstain tally + v_amount vote\<rparr>
      else tally)"

definition userTally :: "Params \<Rightarrow> Vote list \<Rightarrow> Tally" where
  "userTally params allUnique =
     (let tally = fold tally_add allUnique Tally_default;
          y = static_cast_int (t_cyes tally sdiv voteBalance params);
          n = static_cast_int (t_cno tally sdiv voteBalance params);
          a = static_cast_int (t_cabstain tally sdiv voteBalance params)
      in tally\<lparr>t_yes := (if y < 0 then 0 else y), t_no := (if n < 0 then 0 else n),
                t_abstain := (if a < 0 then 0 else a)\<rparr>)"

definition tally_step :: "Env \<Rightarrow> Params \<Rightarrow> (CKeyID \<times> Vote list) list \<Rightarrow> uint256 \<times> Vote list \<Rightarrow>
    Vote list \<times> Tally list \<Rightarrow> Vote list \<times> Tally list" where
  "tally_step env params userVotesDest item acc =
     (let counted = fst acc; tallies = snd acc;
          allUnique = tally_allUnique env userVotesDest (snd item) counted
      in if allUnique = [] then (counted, tallies)
         else (oset_insert_range (Vote_getHash env) allUnique counted,
               tallies @ [userTally params allUnique]))"

definition tally_sum :: "Tally \<Rightarrow> Tally \<Rightarrow> Tally" where
  "tally_sum tally finalTally =
     \<lparr>t_cyes = t_cyes finalTally + t_cyes tally, t_cno = t_cno finalTally + t_cno tally,
      t_cabstain = t_cabstain finalTally + t_cabstain tally,
      t_yes = t_yes finalTally + t_yes tally, t_no = t_no finalTally + t_no tally,
      t_abstain = t_abstain finalTally + t_abstain tally\<rparr>"

definition getTally :: "Env \<Rightarrow> uint256 \<Rightarrow> Vote list \<Rightarrow> Params \<Rightarrow> Tally" where
  "getTally env proposal vs params =
     (let proposalVotes = filter (\<lambda>vote. \<not> (proposal \<noteq> v_proposal vote)) vs;
          prep = fold (tally_prep env) proposalVotes ([], []);
          userVotes = fst prep; userVotesDest = snd prep;
          tallies = snd (fold (tally_step env params userVotesDest) userVotes ([], []))
      in fold tally_sum tallies Tally_default)"

text \<open>
  The groups of votes the passes of \<open>getTally\<close> count, one list per sub-tally. It is the
  loop of \<open>tally_step\<close> again, keeping the votes in place of their sums.
\<close>

definition tally_groups_step :: "Env \<Rightarrow> (CKeyID \<times> Vote list) list \<Rightarrow> uint256 \<times> Vote list \<Rightarrow>
    Vote list \<times> Vote list list \<Rightarrow> Vote list \<times> Vote list list" where
  "tally_groups_step env userVotesDest item acc =
     (let counted = fst acc; groups = snd acc;
          allUnique = tally_allUnique env userVotesDest (snd item) counted
      in if allUnique = [] then (counted, groups)
         else (oset_insert_range (Vote_getHash env) allUnique counted, groups @ [allUnique]))"

definition tally_groups :: "Env \<Rightarrow> uint256 \<Rightarrow> Vote list \<Rightarrow> Vote list list" where
  "tally_groups env proposal vs =
     (let proposalVotes = filter (\<lambda>vote. \<not> (proposal \<noteq> v_proposal vote)) vs;
          prep = fold (tally_prep env) proposalVotes ([], []);
          userVotes = fst prep; userVotesDest = snd prep
      in snd (fold (tally_groups_step env userVotesDest) userVotes ([], [])))"

section \<open>Superblock results and payees\<close>

definition isSuperblock :: "int \<Rightarrow> Params \<Rightarrow> bool" where
  "isSuperblock blockHeight params =
     (blockHeight \<ge> governanceBlock params \<and> blockHeight smod superblock params = 0)"

definition getProposalsForSuperblock :: "Env \<Rightarrow> Governance \<Rightarrow> int \<Rightarrow> Proposal list \<times> Vote list" where
  "getProposalsForSuperblock env st sb =
     (let ps = getProposals_superblock st sb;
          vs = getVotes_superblock st sb;
          allProposals = filter (\<lambda>p. p_superblock p = sb) ps;
          proposalHashes = map (Proposal_getHash env) allProposals;
          allVotes = filter (\<lambda>v. v_proposal v \<in> set proposalHashes) vs
      in (allProposals, allVotes))"

text \<open>The loop of lines 1344 to 1349: the amount of the first vote of every utxo.\<close>

fun uniqueAmount_loop :: "Vote list \<Rightarrow> COutPoint list \<Rightarrow> CAmount \<Rightarrow> CAmount" where
  "uniqueAmount_loop [] unique uniqueAmount = uniqueAmount"
| "uniqueAmount_loop (vote # vs) unique uniqueAmount =
     (if v_utxo vote \<in> set unique then uniqueAmount_loop vs unique uniqueAmount
      else uniqueAmount_loop vs (v_utxo vote # unique) (uniqueAmount + v_amount vote))"

text \<open>
  The test of lines 1365 to 1367. The two comparisons are made in \<open>double\<close> in the source.
  Every operand is a 32-bit integer: the conversions are exact, the product by \<open>0.25\<close> is
  exact, and a quotient of two such integers that is below three fifths is below it by more
  than the spacing of the doubles there, so each comparison has the value it has in the reals.
\<close>

definition results_erased :: "Tally \<Rightarrow> int \<Rightarrow> bool" where
  "results_erased tally uniqueVotes =
     (let total = t_yes tally + t_no tally + t_abstain tally;
          yaynay = t_yes tally + t_no tally
      in yaynay = 0 \<or> real_of_int (t_yes tally) / real_of_int yaynay < 0.6
         \<or> real_of_int total < real_of_int uniqueVotes * 0.25
         \<or> t_yes tally \<le> 0)"

definition getSuperblockResults :: "Env \<Rightarrow> Governance \<Rightarrow> int \<Rightarrow> Params \<Rightarrow> (Proposal \<times> Tally) list" where
  "getSuperblockResults env st sb params =
     (if \<not> isSuperblock sb params then []
      else
        let psvs = getProposalsForSuperblock env st sb;
            ps = fst psvs; vs = snd psvs;
            uniqueAmount = uniqueAmount_loop vs [] 0;
            uniqueVotes = static_cast_int (uniqueAmount sdiv voteBalance params);
            r = fold (\<lambda>proposal r. omap_assign (Proposal_getHash env) proposal
                       (getTally env (Proposal_getHash env proposal) vs params) r) ps []
        in filter (\<lambda>it. \<not> results_erased (snd it) uniqueVotes) r)"

text \<open>
  \<open>std::sort\<close> with the comparison of lines 1739 to 1746. The order \<open>std::sort\<close> leaves
  between elements the comparison does not separate is unspecified; the model is the
  insertion sort, which keeps them in their order.
\<close>

definition payee_less :: "Proposal \<times> Tally \<Rightarrow> Proposal \<times> Tally \<Rightarrow> bool" where
  "payee_less a b =
     (if netyes (snd a) = netyes (snd b) \<and> t_yes (snd a) = t_yes (snd b)
      then p_blockNumber (fst a) < p_blockNumber (fst b)
      else if netyes (snd a) = netyes (snd b) then t_yes (snd a) > t_yes (snd b)
      else netyes (snd a) > netyes (snd b))"

fun sort_insert :: "('a \<Rightarrow> 'a \<Rightarrow> bool) \<Rightarrow> 'a \<Rightarrow> 'a list \<Rightarrow> 'a list" where
  "sort_insert lt x [] = [x]"
| "sort_insert lt x (y # ys) = (if lt y x then y # sort_insert lt x ys else x # y # ys)"

definition std_sort :: "('a \<Rightarrow> 'a \<Rightarrow> bool) \<Rightarrow> 'a list \<Rightarrow> 'a list" where
  "std_sort lt xs = foldr (sort_insert lt) xs []"

text \<open>
  The loop of lines 1753 to 1763 takes the first element, then erases it, until the vector
  is empty; it is entered with a vector that is not empty.
\<close>

fun payees_loop :: "Env \<Rightarrow> (Proposal \<times> Tally) list \<Rightarrow> CAmount \<Rightarrow> CTxOut list \<Rightarrow> CTxOut list" where
  "payees_loop env [] superblockTotal r = r"
| "payees_loop env (result # props) superblockTotal r =
     (if superblockTotal - p_amount (fst result) \<ge> 0
      then payees_loop env props (superblockTotal - p_amount (fst result))
             (r @ [\<lparr>nValue = p_amount (fst result),
                    scriptPubKey = scriptForAddress env (p_address (fst result))\<rparr>])
      else payees_loop env props superblockTotal r)"

definition getSuperblockPayees :: "Env \<Rightarrow> int \<Rightarrow> (Proposal \<times> Tally) list \<Rightarrow> Params \<Rightarrow> CTxOut list" where
  "getSuperblockPayees env sb results params =
     (if results = [] then []
      else
        let props = std_sort payee_less results;
            superblockTotal = min (proposalMaxAmount params) (GetBlockSubsidy params sb)
        in payees_loop env props superblockTotal [])"

text \<open>
  The \<open>remove_if\<close> of lines 1439 to 1450: an output that equals a payee is removed, and
  with it the last payee it equals.
\<close>

fun match_vouts :: "CTxOut list \<Rightarrow> CTxOut list \<Rightarrow> CTxOut list \<times> CTxOut list" where
  "match_vouts [] payees = ([], payees)"
| "match_vouts (out # vouts) payees =
     (if out \<in> set payees then match_vouts vouts (rev (remove1 out (rev payees)))
      else (out # fst (match_vouts vouts payees), snd (match_vouts vouts payees)))"

text \<open>
  \<open>isValidSuperblock\<close> returns its verdict and the value of \<open>paymentsRet\<close>. The result is
  \<open>None\<close> where the source reads \<open>vtx[1]\<close> of a block with fewer than two transactions.
\<close>

definition isValidSuperblock :: "Env \<Rightarrow> Governance \<Rightarrow> CBlock \<Rightarrow> int \<Rightarrow> Params \<Rightarrow> CAmount \<Rightarrow> (bool \<times> CAmount) option" where
  "isValidSuperblock env st block blockHeight params paymentsRet =
     (if \<not> isSuperblock blockHeight params then Some (False, paymentsRet)
      else if \<not> IsProofOfStake env block then Some (False, paymentsRet)
      else
        let results = getSuperblockResults env st blockHeight params in
        if results = [] then Some (True, paymentsRet)
        else
          let payees = getSuperblockPayees env blockHeight results params in
          if payees = [] then Some (False, paymentsRet)
          else
            let payments = sum_list (map nValue payees) in
            if length (vtx block) < 2 then None
            else
              let vouts = vout (vtx block ! 1) in
              if int (length vouts) - int (length payees) > 2 then Some (False, payments)
              else
                let m = match_vouts vouts payees in
                Some (length (fst m) \<le> 2 \<and> snd m = [], payments))"

section \<open>Reading from a stream\<close>

text \<open>
  Modelled from the spec: \<open>CDataStream::operator>>\<close> is not in the governance header. It
  reads the layout of section 4.1 from the front of the stream. A read past the end of the
  data throws (\<open>EndOfData\<close>), and so does a compact size that is not in its shortest form
  or is above the framework's limit. Bytes left in the stream after an object was read are
  ignored. A thrown error is a value \<open>Inl e\<close>.
\<close>

datatype error = EndOfData | NonCanonicalCompactSize | SizeTooLarge | DanglingPointer

definition ebind :: "error + 'a \<Rightarrow> ('a \<Rightarrow> error + 'b) \<Rightarrow> error + 'b" where
  "ebind m f = (case m of Inl e \<Rightarrow> Inl e | Inr x \<Rightarrow> f x)"

fun le_nat :: "byte list \<Rightarrow> nat" where
  "le_nat [] = 0"
| "le_nat (b # bs) = unat b + 256 * le_nat bs"

definition read_bytes :: "nat \<Rightarrow> byte list \<Rightarrow> error + (byte list \<times> byte list)" where
  "read_bytes n s = (if length s < n then Inl EndOfData else Inr (take n s, drop n s))"

definition read_uint8 :: "byte list \<Rightarrow> error + (byte \<times> byte list)" where
  "read_uint8 s = (case s of [] \<Rightarrow> Inl EndOfData | b # r \<Rightarrow> Inr (b, r))"

definition read_uint :: "nat \<Rightarrow> byte list \<Rightarrow> error + (nat \<times> byte list)" where
  "read_uint k s = ebind (read_bytes k s) (\<lambda>(bs, r). Inr (le_nat bs, r))"

definition read_uint32 :: "byte list \<Rightarrow> error + (32 word \<times> byte list)" where
  "read_uint32 s = ebind (read_uint 4 s) (\<lambda>(x, r). Inr (of_nat x, r))"

definition read_int32 :: "byte list \<Rightarrow> error + (int \<times> byte list)" where
  "read_int32 s =
     ebind (read_uint 4 s) (\<lambda>(x, r). Inr (if x < 2 ^ 31 then int x else int x - 2 ^ 32, r))"

definition read_int64 :: "byte list \<Rightarrow> error + (int \<times> byte list)" where
  "read_int64 s =
     ebind (read_uint 8 s) (\<lambda>(x, r). Inr (if x < 2 ^ 63 then int x else int x - 2 ^ 64, r))"

definition MAX_SIZE :: nat where "MAX_SIZE = 33554432"

definition ReadCompactSize :: "byte list \<Rightarrow> error + (nat \<times> byte list)" where
  "ReadCompactSize s =
     ebind (read_uint8 s) (\<lambda>(chSize, r).
       ebind (if chSize < 253 then Inr (unat chSize, r)
              else if chSize = 253 then
                ebind (read_uint 2 r) (\<lambda>(x, r'). if x < 253 then Inl NonCanonicalCompactSize else Inr (x, r'))
              else if chSize = 254 then
                ebind (read_uint 4 r) (\<lambda>(x, r'). if x < 65536 then Inl NonCanonicalCompactSize else Inr (x, r'))
              else
                ebind (read_uint 8 r) (\<lambda>(x, r'). if x < 4294967296 then Inl NonCanonicalCompactSize else Inr (x, r')))
         (\<lambda>(n, r'). if n > MAX_SIZE then Inl SizeTooLarge else Inr (n, r')))"

definition read_vector :: "byte list \<Rightarrow> error + (byte list \<times> byte list)" where
  "read_vector s = ebind (ReadCompactSize s) (\<lambda>(n, r). read_bytes n r)"

definition read_string :: "byte list \<Rightarrow> error + (string \<times> byte list)" where
  "read_string s = ebind (read_vector s) (\<lambda>(bs, r). Inr (map (\<lambda>b. char_of (unat b)) bs, r))"

definition read_COutPoint :: "byte list \<Rightarrow> error + (COutPoint \<times> byte list)" where
  "read_COutPoint s =
     ebind (read_bytes 32 s) (\<lambda>(h, r).
     ebind (read_uint32 r) (\<lambda>(n, r'). Inr (\<lparr>op_hash = h, op_n = n\<rparr>, r')))"

text \<open>\<open>ss >> obj\<close> for a \<open>NetworkObject\<close>: the version and the type.\<close>

definition NetworkObject_Unserialize :: "byte list \<Rightarrow> error + (byte \<times> byte)" where
  "NetworkObject_Unserialize s =
     ebind (read_uint8 s) (\<lambda>(version, r).
     ebind (read_uint8 r) (\<lambda>(type, r'). Inr (version, type)))"

text \<open>\<open>ss2 >> proposal\<close>, into the proposal \<open>p\<close> (which carries the block number).\<close>

definition Proposal_Unserialize :: "Proposal \<Rightarrow> byte list \<Rightarrow> error + Proposal" where
  "Proposal_Unserialize p s =
     ebind (read_uint8 s) (\<lambda>(version, s1).
     ebind (read_uint8 s1) (\<lambda>(type, s2).
     ebind (read_int32 s2) (\<lambda>(sb, s3).
     ebind (read_int64 s3) (\<lambda>(amount, s4).
     ebind (read_string s4) (\<lambda>(address, s5).
     ebind (read_string s5) (\<lambda>(name, s6).
     ebind (read_string s6) (\<lambda>(url, s7).
     ebind (read_string s7) (\<lambda>(description, s8).
       Inr (p\<lparr>p_version := version, p_type := type, p_superblock := sb, p_amount := amount,
              p_address := address, p_name := name, p_url := url,
              p_description := description\<rparr>)))))))))"

definition loadKeyID :: "Env \<Rightarrow> Vote \<Rightarrow> Vote" where
  "loadKeyID env v =
     (case getKeyIDForUTXO env (v_utxo v) of None \<Rightarrow> v
      | Some ka \<Rightarrow> v\<lparr>v_keyid := fst ka, v_amount := snd ka\<rparr>)"

text \<open>
  \<open>ss2 >> vote\<close>, into the vote \<open>v\<close> (which carries the outpoint, the time and the block
  number); a read then assigns the memory-only fields (lines 605 to 608).
\<close>

definition Vote_Unserialize :: "Env \<Rightarrow> Vote \<Rightarrow> byte list \<Rightarrow> error + Vote" where
  "Vote_Unserialize env v s =
     ebind (read_uint8 s) (\<lambda>(version, s1).
     ebind (read_uint8 s1) (\<lambda>(type, s2).
     ebind (read_bytes 32 s2) (\<lambda>(proposal, s3).
     ebind (read_uint8 s3) (\<lambda>(vote, s4).
     ebind (read_COutPoint s4) (\<lambda>(utxo, s5).
     ebind (read_bytes VINHASH_SIZE s5) (\<lambda>(vinhash, s6).
     ebind (read_vector s6) (\<lambda>(signature, s7).
       let v1 = v\<lparr>v_version := version, v_type := type, v_proposal := proposal, v_vote := vote,
                   v_utxo := utxo, v_vinhash := vinhash, v_signature := signature\<rparr>;
           v2 = v1\<lparr>v_pubkey := recoverCompact env (Vote_sigHash env v1) signature\<rparr>
       in Inr (loadKeyID env v2))))))))"

section \<open>Validity of a proposal\<close>

text \<open>
  The regular expression of line 181: word characters, then word characters, hyphens and
  blanks, then word characters. A string matches it when it has two characters or more, its
  first and its last are word characters and every one is a word character, a hyphen or a
  blank.
\<close>

definition isWordChar :: "char \<Rightarrow> bool" where
  "isWordChar c =
     (let n = (of_char c :: nat)
      in (48 \<le> n \<and> n \<le> 57) \<or> (65 \<le> n \<and> n \<le> 90) \<or> (97 \<le> n \<and> n \<le> 122) \<or> n = 95)"

definition name_matches :: "string \<Rightarrow> bool" where
  "name_matches s =
     (length s \<ge> 2 \<and> isWordChar (hd s) \<and> isWordChar (last s)
      \<and> list_all (\<lambda>c. isWordChar c \<or> c = CHR ''-'' \<or> c = CHR '' '') s)"

definition Proposal_isValid :: "Env \<Rightarrow> Params \<Rightarrow> Proposal \<Rightarrow> bool" where
  "Proposal_isValid env params p =
     (if \<not> name_matches (p_name p) then False
      else if p_superblock p smod superblock params \<noteq> 0 then False
      else if \<not> (p_amount p \<ge> proposalMinAmount params
                 \<and> p_amount p \<le> min (proposalMaxAmount params)
                                   (GetBlockSubsidy params (p_superblock p))) then False
      else if \<not> validDestination env (p_address p) then False
      else if p_type p \<noteq> PROPOSAL then False
      else if p_version p \<noteq> NETWORK_VERSION then False
      else if int (length (Proposal_hashBytes p)) > int (MAX_OP_RETURN_RELAY env) - 3 then False
      else True)"

definition outsideProposalCutoff :: "Proposal \<Rightarrow> int \<Rightarrow> Params \<Rightarrow> bool" where
  "outsideProposalCutoff proposal blockNumber params =
     (if Proposal_isNull proposal then False
      else blockNumber < p_superblock proposal - proposalCutoff params)"

definition outsideVotingCutoff :: "Proposal \<Rightarrow> int \<Rightarrow> Params \<Rightarrow> bool" where
  "outsideVotingCutoff proposal blockNumber params =
     (if Proposal_isNull proposal then False
      else blockNumber < p_superblock proposal - votingCutoff params)"

definition insideVoteCutoff :: "int \<Rightarrow> int \<Rightarrow> Params \<Rightarrow> bool" where
  "insideVoteCutoff sb blockNumber params =
     (blockNumber \<ge> sb - votingCutoff params \<and> blockNumber \<le> sb)"

section \<open>Scripts\<close>

text \<open>
  Modelled from the spec: \<open>CScript::GetOp\<close> is not in the governance header. It reads one
  operation from the front of a script: an opcode byte, and for a push (an opcode up to
  \<open>OP_PUSHDATA4\<close>) the length it announces and that many bytes of data. It fails, with the
  data cleared, when the script ends before the operation does. The result holds the opcode,
  the data and the rest of the script.
\<close>

definition OP_PUSHDATA1 :: nat where "OP_PUSHDATA1 = 76"
definition OP_PUSHDATA2 :: nat where "OP_PUSHDATA2 = 77"
definition OP_PUSHDATA4 :: nat where "OP_PUSHDATA4 = 78"
definition OP_RETURN :: byte where "OP_RETURN = 106"

definition GetOp :: "byte list \<Rightarrow> (nat \<times> byte list \<times> byte list) option" where
  "GetOp pc =
     (case pc of [] \<Rightarrow> None
      | b # rest \<Rightarrow>
          let opcode = unat b in
          if opcode \<le> OP_PUSHDATA4 then
            (case (if opcode < OP_PUSHDATA1 then Some (opcode, rest)
                   else if opcode = OP_PUSHDATA1 then
                     (if length rest < 1 then None else Some (le_nat (take 1 rest), drop 1 rest))
                   else if opcode = OP_PUSHDATA2 then
                     (if length rest < 2 then None else Some (le_nat (take 2 rest), drop 2 rest))
                   else (if length rest < 4 then None else Some (le_nat (take 4 rest), drop 4 rest)))
             of None \<Rightarrow> None
              | Some sz \<Rightarrow>
                  if length (snd sz) < fst sz then None
                  else Some (opcode, take (fst sz) (snd sz), drop (fst sz) (snd sz)))
          else Some (opcode, [], rest))"

lemma GetOp_shorter: "GetOp pc = Some r \<Longrightarrow> length (snd (snd r)) < length pc"
  by (auto simp: GetOp_def Let_def split: list.splits if_splits option.splits)

text \<open>
  The loop of lines 1265 to 1273: it stops at the first operation that cannot be read (the
  data is then empty) and at the first push that carries data.
\<close>

function script_walk :: "byte list \<Rightarrow> bool \<Rightarrow> byte list \<Rightarrow> bool \<times> byte list" where
  "script_walk pc checkdata data =
     (if pc = [] then (checkdata, data)
      else case GetOp pc of
             None \<Rightarrow> (checkdata, [])
           | Some r \<Rightarrow>
               (if ((fst r = OP_PUSHDATA1 \<or> fst r = OP_PUSHDATA2 \<or> fst r = OP_PUSHDATA4)
                     \<or> (fst r < OP_PUSHDATA1 \<and> fst r = length (fst (snd r))))
                    \<and> fst (snd r) \<noteq> []
                then (True, fst (snd r))
                else script_walk (snd (snd r))
                       ((fst r = OP_PUSHDATA1 \<or> fst r = OP_PUSHDATA2 \<or> fst r = OP_PUSHDATA4)
                        \<or> (fst r < OP_PUSHDATA1 \<and> fst r = length (fst (snd r))))
                       (fst (snd r))))"
  by pat_completeness auto
termination
  by (relation "measure (\<lambda>(pc, c, d). length pc)") (auto dest: GetOp_shorter)

declare script_walk.simps [simp del]

section \<open>Extraction from a block\<close>

definition makeVinHash :: "Env \<Rightarrow> COutPoint \<Rightarrow> VinHash" where
  "makeVinHash env po = take VINHASH_SIZE (hash256 env (ser_COutPoint po))"

text \<open>
  Lines 1315 to 1321. \<open>votesRet\<close> is a \<open>std::set<Vote>\<close> ordered by \<open>getHash()\<close>, and
  \<open>insert\<close> is the insertion of a set.
\<close>

definition votesRet_add :: "Env \<Rightarrow> Vote \<Rightarrow> Vote list \<Rightarrow> Vote list" where
  "votesRet_add env vote votesRet =
     (if oset_count (Vote_getHash env) votesRet vote then
        (case find (\<lambda>x. Vote_getHash env x = Vote_getHash env vote) votesRet of
           None \<Rightarrow> votesRet
         | Some it \<Rightarrow>
             if UintToArith256 (Vote_sigHash env vote) > UintToArith256 (Vote_sigHash env it)
             then oset_insert (Vote_getHash env) vote votesRet
             else votesRet)
      else oset_insert (Vote_getHash env) vote votesRet)"

definition height_of :: "int option \<Rightarrow> int" where
  "height_of blockIndex = (case blockIndex of None \<Rightarrow> 0 | Some h \<Rightarrow> h)"

text \<open>
  The body of the loop over the outputs of a transaction, lines 1258 to 1322, for the output
  \<open>out\<close> at index \<open>n\<close>. \<open>blockIndex\<close> is the height of the block index, \<open>None\<close> for a null
  pointer. The accumulator holds \<open>proposalsRet\<close>, \<open>votesRet\<close> and the \<open>vinHashes\<close> of the
  transaction. The source has no handler around the reads from the stream: what they throw
  leaves the function. An output with an empty script is skipped: whatever
  \<open>scriptPubKey[0]\<close> reads, the loop of lines 1265 to 1273 does not run on it, and
  \<open>checkdata\<close> stays false.
\<close>

definition dataFromOut :: "Env \<Rightarrow> Governance \<Rightarrow> Params \<Rightarrow> CBlock \<Rightarrow> CTransaction \<Rightarrow> int option \<Rightarrow> bool
    \<Rightarrow> nat \<Rightarrow> CTxOut \<Rightarrow> Proposal list \<times> Vote list \<times> VinHash list
    \<Rightarrow> error + (Proposal list \<times> Vote list \<times> VinHash list)" where
  "dataFromOut env st params block tx blockIndex checkProposal n out acc =
     (let proposalsRet = fst acc; votesRet = fst (snd acc); vinHashes = snd (snd acc) in
      case scriptPubKey out of
        [] \<Rightarrow> Inr acc
      | b # bs \<Rightarrow>
          if b \<noteq> OP_RETURN then Inr acc
          else
            let w = script_walk (scriptPubKey out) False [];
                checkdata = fst w; data = snd w
            in if \<not> checkdata \<or> data = [] then Inr acc
               else
                 ebind (NetworkObject_Unserialize data) (\<lambda>obj.
                   if fst obj \<noteq> NETWORK_VERSION then Inr acc
                   else if snd obj = PROPOSAL then
                     ebind (Proposal_Unserialize
                              (Proposal_default\<lparr>p_blockNumber := height_of blockIndex\<rparr>) data)
                       (\<lambda>proposal.
                          if Proposal_isValid env params proposal
                             \<and> (case blockIndex of None \<Rightarrow> True
                                 | Some h \<Rightarrow> outsideProposalCutoff proposal h params)
                          then Inr (oset_insert (Proposal_getHash env) proposal proposalsRet,
                                    votesRet, vinHashes)
                          else Inr acc)
                   else if snd obj = VOTE then
                     let vinHashes' =
                           (if vinHashes = []
                            then fold (\<lambda>i s. oset_insert id (makeVinHash env (prevout i)) s)
                                   (vin tx) vinHashes
                            else vinHashes)
                     in ebind (Vote_Unserialize env
                                 (Vote_default\<lparr>v_outpoint := \<lparr>op_hash = tx_hash tx, op_n = of_nat n\<rparr>,
                                    v_time := nTime block, v_blockNumber := height_of blockIndex\<rparr>)
                                 data)
                          (\<lambda>vote.
                             if (case blockIndex of None \<Rightarrow> False
                                 | Some h \<Rightarrow> checkProposal
                                     \<and> \<not> hasProposal_before st (v_proposal vote) h)
                                \<or> \<not> Vote_isValid_vin env vinHashes' params vote
                                \<or> (case blockIndex of None \<Rightarrow> False
                                    | Some h \<Rightarrow> \<not> outsideVotingCutoff
                                         (getProposal st (v_proposal vote)) h params)
                             then Inr (proposalsRet, votesRet, vinHashes')
                             else Inr (proposalsRet, votesRet_add env vote votesRet, vinHashes'))
                   else Inr acc))"

fun dataFromOuts :: "Env \<Rightarrow> Governance \<Rightarrow> Params \<Rightarrow> CBlock \<Rightarrow> CTransaction \<Rightarrow> int option \<Rightarrow> bool
    \<Rightarrow> nat \<Rightarrow> CTxOut list \<Rightarrow> Proposal list \<times> Vote list \<times> VinHash list
    \<Rightarrow> error + (Proposal list \<times> Vote list \<times> VinHash list)" where
  "dataFromOuts env st params block tx blockIndex checkProposal n [] acc = Inr acc"
| "dataFromOuts env st params block tx blockIndex checkProposal n (out # outs) acc =
     ebind (dataFromOut env st params block tx blockIndex checkProposal n out acc)
       (dataFromOuts env st params block tx blockIndex checkProposal (Suc n) outs)"

definition dataFromTx :: "Env \<Rightarrow> Governance \<Rightarrow> Params \<Rightarrow> CBlock \<Rightarrow> int option \<Rightarrow> bool
    \<Rightarrow> CTransaction \<Rightarrow> Proposal list \<times> Vote list \<Rightarrow> error + (Proposal list \<times> Vote list)" where
  "dataFromTx env st params block blockIndex checkProposal tx acc =
     (if IsCoinBase env tx then Inr acc
      else ebind (dataFromOuts env st params block tx blockIndex checkProposal 0 (vout tx)
                    (fst acc, snd acc, []))
             (\<lambda>r. Inr (fst r, fst (snd r))))"

fun dataFromTxs :: "Env \<Rightarrow> Governance \<Rightarrow> Params \<Rightarrow> CBlock \<Rightarrow> int option \<Rightarrow> bool
    \<Rightarrow> CTransaction list \<Rightarrow> Proposal list \<times> Vote list \<Rightarrow> error + (Proposal list \<times> Vote list)" where
  "dataFromTxs env st params block blockIndex checkProposal [] acc = Inr acc"
| "dataFromTxs env st params block blockIndex checkProposal (tx # txs) acc =
     ebind (dataFromTx env st params block blockIndex checkProposal tx acc)
       (dataFromTxs env st params block blockIndex checkProposal txs)"

definition dataFromBlock :: "Env \<Rightarrow> Governance \<Rightarrow> CBlock \<Rightarrow> Proposal list \<Rightarrow> Vote list \<Rightarrow> Params
    \<Rightarrow> int option \<Rightarrow> bool \<Rightarrow> error + (Proposal list \<times> Vote list)" where
  "dataFromBlock env st block proposalsRet votesRet params blockIndex checkProposal =
     dataFromTxs env st params block blockIndex checkProposal (vtx block) (proposalsRet, votesRet)"

section \<open>Applying and undoing a block\<close>

definition addVote :: "Env \<Rightarrow> Governance \<Rightarrow> Vote \<Rightarrow> Governance" where
  "addVote env st vote =
     (if \<not> umap_count (proposals st) (v_proposal vote) then st
      else
        let voteHash = Vote_getHash env vote;
            proposal = umap_index Proposal_default (proposals st) (v_proposal vote);
            vs = umap_index [] (sbvotes st) (p_superblock proposal)
        in st\<lparr>votes := AList.update voteHash vote (votes st),
               sbvotes := AList.update (p_superblock proposal) (AList.update voteHash vote vs)
                            (sbvotes st)\<rparr>)"

definition removeVote :: "Env \<Rightarrow> Governance \<Rightarrow> Vote \<Rightarrow> Governance" where
  "removeVote env st vote =
     (let voteHash = Vote_getHash env vote in
      if \<not> umap_count (votes st) voteHash then st
      else
        let st1 = st\<lparr>votes := AList.delete voteHash (votes st)\<rparr> in
        if \<not> umap_count (proposals st1) (v_proposal vote) then st1
        else
          let proposal = umap_index Proposal_default (proposals st1) (v_proposal vote) in
          if \<not> umap_count (sbvotes st1) (p_superblock proposal) then st1
          else
            let vs = umap_index [] (sbvotes st1) (p_superblock proposal) in
            if \<not> umap_count vs voteHash then st1
            else st1\<lparr>sbvotes := AList.update (p_superblock proposal)
                                   (AList.delete voteHash vs) (sbvotes st1)\<rparr>)"

definition addProposal :: "Env \<Rightarrow> Governance \<Rightarrow> Proposal \<Rightarrow> Governance" where
  "addProposal env st proposal =
     (if umap_count (proposals st) (Proposal_getHash env proposal) then st
      else st\<lparr>proposals := AList.update (Proposal_getHash env proposal) proposal (proposals st)\<rparr>)"

definition removeProposal :: "Env \<Rightarrow> Governance \<Rightarrow> Proposal \<Rightarrow> Governance" where
  "removeProposal env st proposal =
     st\<lparr>proposals := AList.delete (Proposal_getHash env proposal) (proposals st)\<rparr>"

text \<open>The map \<open>prevouts\<close> of lines 1819 to 1823 and 1905 to 1909.\<close>

definition block_prevouts :: "CBlock \<Rightarrow> (COutPoint \<times> uint256) list" where
  "block_prevouts block =
     fold (\<lambda>tx m. fold (\<lambda>i m'. AList.update (prevout i) (tx_hash tx) m') (vin tx) m)
       (vtx block) []"

definition sinceVotes :: "Env \<Rightarrow> Governance \<Rightarrow> int \<Rightarrow> VotePtr list" where
  "sinceVotes env st blockHeight =
     concat (map (\<lambda>p. getMutableSBVotes st (Proposal_getHash env p))
               (getProposalsSince st blockHeight))"

fun unspend_loop :: "Env \<Rightarrow> (COutPoint \<times> uint256) list \<Rightarrow> int \<Rightarrow> VotePtr list \<Rightarrow> Governance
    \<Rightarrow> error + Governance" where
  "unspend_loop env prevouts blockHeight [] st = Inr st"
| "unspend_loop env prevouts blockHeight (v # svotes) st =
     (case deref st v of
        None \<Rightarrow> Inl DanglingPointer
      | Some vote \<Rightarrow>
          if \<not> umap_count prevouts (v_utxo vote)
          then unspend_loop env prevouts blockHeight svotes st
          else (case unspendVote_ptr env st v blockHeight
                       (umap_index uint256_null prevouts (v_utxo vote)) of
                  None \<Rightarrow> Inl DanglingPointer
                | Some st' \<Rightarrow> unspend_loop env prevouts blockHeight svotes st'))"

fun spend_loop :: "Env \<Rightarrow> (COutPoint \<times> uint256) list \<Rightarrow> int \<Rightarrow> VotePtr list \<Rightarrow> Governance
    \<Rightarrow> error + Governance" where
  "spend_loop env prevouts blockHeight [] st = Inr st"
| "spend_loop env prevouts blockHeight (v # svotes) st =
     (case deref st v of
        None \<Rightarrow> Inl DanglingPointer
      | Some vote \<Rightarrow>
          if \<not> umap_count prevouts (v_utxo vote)
          then spend_loop env prevouts blockHeight svotes st
          else (case spendVote_ptr env st v blockHeight
                       (umap_index uint256_null prevouts (v_utxo vote)) of
                  None \<Rightarrow> Inl DanglingPointer
                | Some st' \<Rightarrow> spend_loop env prevouts blockHeight svotes st'))"

definition maxInt :: int where "maxInt = 2147483647"

definition undoVote :: "Env \<Rightarrow> int \<Rightarrow> Vote \<Rightarrow> Governance \<Rightarrow> Governance" where
  "undoVote env blockHeight vote st =
     (let voteHash = Vote_getHash env vote in
      if \<not> umap_count (votes st) voteHash then st
      else if v_blockNumber (umap_index Vote_default (votes st) voteHash) = blockHeight
      then removeVote env st vote
      else st)"

definition undoProposal :: "Env \<Rightarrow> int \<Rightarrow> Proposal \<Rightarrow> Governance \<Rightarrow> Governance" where
  "undoProposal env blockHeight proposal st =
     (if \<not> umap_count (proposals st) (Proposal_getHash env proposal) then st
      else if p_blockNumber (umap_index Proposal_default (proposals st)
                               (Proposal_getHash env proposal)) = blockHeight
      then removeProposal env st proposal
      else st)"

text \<open>
  \<open>BlockDisconnected\<close>, lines 1775 to 1844. \<open>blockHeight\<close> is the height of the block index
  \<open>LookupBlockIndex\<close> returns for the block.
\<close>

definition BlockDisconnected :: "Env \<Rightarrow> Params \<Rightarrow> Governance \<Rightarrow> CBlock \<Rightarrow> int \<Rightarrow> error + Governance" where
  "BlockDisconnected env params st block blockHeight =
     ebind (dataFromBlock env st block [] [] params None True) (\<lambda>psvs.
       let st1 = fold (undoVote env blockHeight) (snd psvs) st;
           st2 = fold (undoProposal env blockHeight) (fst psvs) st1
       in if blockHeight = maxInt then Inr st2
          else unspend_loop env (block_prevouts block) blockHeight
                 (sinceVotes env st2 blockHeight) st2)"

definition processVote :: "Env \<Rightarrow> bool \<Rightarrow> Vote \<Rightarrow> Governance \<Rightarrow> Governance" where
  "processVote env processingChainTip vote st =
     (if processingChainTip \<and> \<not> umap_count (proposals st) (v_proposal vote) then st
      else
        let voteHash = Vote_getHash env vote in
        if umap_count (votes st) voteHash then
          (if v_time vote > v_time (umap_index Vote_default (votes st) voteHash)
           then addVote env st vote
           else if UintToArith256 (Vote_sigHash env vote)
                   > UintToArith256 (Vote_sigHash env (umap_index Vote_default (votes st) voteHash))
           then addVote env st vote
           else st)
        else if processingChainTip \<and> IsVoteSpent env (v_utxo vote) then st
        else addVote env st vote)"

text \<open>\<open>processBlock\<close>, lines 1854 to 1930, for a block index of height \<open>height\<close>.\<close>

definition processBlock :: "Env \<Rightarrow> Params \<Rightarrow> Governance \<Rightarrow> CBlock \<Rightarrow> int \<Rightarrow> bool \<Rightarrow> error + Governance" where
  "processBlock env params st block height processingChainTip =
     ebind (dataFromBlock env st block [] [] params (Some height) processingChainTip) (\<lambda>psvs.
       let st1 = fold (\<lambda>proposal s. addProposal env s proposal) (fst psvs) st;
           st2 = fold (processVote env processingChainTip) (snd psvs) st1
       in if \<not> processingChainTip \<or> votes st2 = [] then Inr st2
          else spend_loop env (block_prevouts block) height (sinceVotes env st2 height) st2)"

section \<open>Histories of the store\<close>

text \<open>
  A \<open>Governance\<close> object is constructed empty (line 711). The calls that change it are
  \<open>processBlock\<close> (from \<open>BlockConnected\<close> and, with \<open>processingChainTip\<close> false, from
  \<open>loadGovernanceData\<close>), \<open>BlockDisconnected\<close>, the \<open>addVote\<close> of the second pass of
  \<open>loadGovernanceData\<close>, the four overloads of \<open>spendVote\<close> and \<open>unspendVote\<close>, and
  \<open>reset\<close>. \<open>run_calls\<close> is the store after a sequence of such calls under the consensus
  parameters \<open>params\<close>, an error when one of them throws.
\<close>

definition Governance_new :: Governance where
  "Governance_new = \<lparr>proposals = [], votes = [], sbvotes = []\<rparr>"

datatype call =
    Call_processBlock CBlock int bool
  | Call_BlockDisconnected CBlock int
  | Call_addVote Vote
  | Call_spendVote VotePtr int uint256
  | Call_unspendVote VotePtr int uint256
  | Call_spendVote_ref Vote int uint256
  | Call_unspendVote_ref Vote int uint256
  | Call_reset

fun apply_call :: "Env \<Rightarrow> Params \<Rightarrow> call \<Rightarrow> Governance \<Rightarrow> error + Governance" where
  "apply_call env params (Call_processBlock block height processingChainTip) st =
     processBlock env params st block height processingChainTip"
| "apply_call env params (Call_BlockDisconnected block blockHeight) st =
     BlockDisconnected env params st block blockHeight"
| "apply_call env params (Call_addVote vote) st = Inr (addVote env st vote)"
| "apply_call env params (Call_spendVote ptr block txhash) st =
     (case spendVote_ptr env st ptr block txhash of
        None \<Rightarrow> Inl DanglingPointer | Some st' \<Rightarrow> Inr st')"
| "apply_call env params (Call_unspendVote ptr block txhash) st =
     (case unspendVote_ptr env st ptr block txhash of
        None \<Rightarrow> Inl DanglingPointer | Some st' \<Rightarrow> Inr st')"
| "apply_call env params (Call_spendVote_ref vote block txhash) st =
     Inr (fst (spendVote_ref env st vote block txhash))"
| "apply_call env params (Call_unspendVote_ref vote block txhash) st =
     Inr (fst (unspendVote_ref env st vote block txhash))"
| "apply_call env params Call_reset st = Inr (reset st)"

fun run_calls :: "Env \<Rightarrow> Params \<Rightarrow> call list \<Rightarrow> Governance \<Rightarrow> error + Governance" where
  "run_calls env params [] st = Inr st"
| "run_calls env params (c # cs) st =
     ebind (apply_call env params c st) (run_calls env params cs)"

text \<open>Every proposal of the store passes \<open>Proposal::isValid\<close>.\<close>

definition stored_valid :: "Env \<Rightarrow> Params \<Rightarrow> Governance \<Rightarrow> bool" where
  "stored_valid env params st = list_all (Proposal_isValid env params) (map snd (proposals st))"

section \<open>Notions of the specification\<close>

text \<open>
  The order of section 4.6 on results: net yes votes (yes less no) descending, then yes
  votes descending, then the block number of the proposal ascending.
\<close>

definition payee_order :: "Proposal \<times> Tally \<Rightarrow> Proposal \<times> Tally \<Rightarrow> bool" where
  "payee_order a b =
     (t_yes (snd a) - t_no (snd a) > t_yes (snd b) - t_no (snd b)
      \<or> (t_yes (snd a) - t_no (snd a) = t_yes (snd b) - t_no (snd b)
          \<and> (t_yes (snd a) > t_yes (snd b)
              \<or> (t_yes (snd a) = t_yes (snd b)
                  \<and> p_blockNumber (fst a) \<le> p_blockNumber (fst b)))))"

definition payee_out :: "Env \<Rightarrow> Proposal \<times> Tally \<Rightarrow> CTxOut" where
  "payee_out env result =
     \<lparr>nValue = p_amount (fst result),
      scriptPubKey = scriptForAddress env (p_address (fst result))\<rparr>"

text \<open>
  The greedy fill of section 4.6, in the words of the specification: in order, a proposal
  whose amount is at most what remains is emitted and its amount deducted; any other is
  skipped and the fill continues.
\<close>

fun greedy_fill :: "Env \<Rightarrow> CAmount \<Rightarrow> (Proposal \<times> Tally) list \<Rightarrow> CTxOut list" where
  "greedy_fill env remaining [] = []"
| "greedy_fill env remaining (x # xs) =
     (if p_amount (fst x) \<le> remaining
      then payee_out env x # greedy_fill env (remaining - p_amount (fst x)) xs
      else greedy_fill env remaining xs)"

text \<open>The four conditions of section 4.6 on a tally, as the specification writes them.\<close>

definition tally_passes :: "Tally \<Rightarrow> int \<Rightarrow> bool" where
  "tally_passes t uniqueVotes =
     (t_yes t + t_no t > 0
      \<and> real_of_int (t_yes t) / real_of_int (t_yes t + t_no t) \<ge> 0.60
      \<and> real_of_int (t_yes t + t_no t + t_abstain t) \<ge> 0.25 * real_of_int uniqueVotes
      \<and> t_yes t > 0)"

text \<open>The amount the votes of one kind carry.\<close>

definition amount_of :: "byte \<Rightarrow> Vote list \<Rightarrow> CAmount" where
  "amount_of kind vs = sum_list (map v_amount (filter (\<lambda>v. v_vote v = kind) vs))"

text \<open>
  \<open>addProposal\<close> stores a proposal under its own hash: the store is keyed when every
  proposal is found under its hash and no key stands twice.
\<close>

definition proposals_keyed :: "Env \<Rightarrow> Governance \<Rightarrow> bool" where
  "proposals_keyed env st =
     (umap_wf (proposals st)
      \<and> list_all (\<lambda>item. fst item = Proposal_getHash env (snd item)) (proposals st))"

text \<open>
  \<open>addVote\<close> and \<open>removeVote\<close> keep the two vote maps in step: every vote of
  \<open>sbvotes\<close> stands under its own hash there and in \<open>votes\<close>.
\<close>

definition votes_synced :: "Env \<Rightarrow> Governance \<Rightarrow> bool" where
  "votes_synced env st =
     list_all (\<lambda>sbitem. list_all (\<lambda>item. fst item = Vote_getHash env (snd item)
                                          \<and> map_of (votes st) (fst item) = Some (snd item))
                            (snd sbitem))
       (sbvotes st)"

text \<open>Invariants of the loops of \<open>getTally\<close>.\<close>

definition groups_within :: "('k \<times> Vote list) list \<Rightarrow> Vote set \<Rightarrow> bool" where
  "groups_within m S = list_all (\<lambda>item. set (snd item) \<subseteq> S) m"

definition groups_inv :: "Env \<Rightarrow> Vote set \<Rightarrow> Vote list \<times> Vote list list \<Rightarrow> bool" where
  "groups_inv env S acc =
     (Vote_getHash env ` set (fst acc) = Vote_getHash env ` set (concat (snd acc))
      \<and> distinct (map (Vote_getHash env) (concat (snd acc)))
      \<and> set (concat (snd acc)) \<subseteq> S)"

text \<open>The write direction of \<open>Vote::SerializationOp\<close>, lines 598 to 604.\<close>

definition Vote_Serialize :: "Vote \<Rightarrow> byte list" where
  "Vote_Serialize v =
     ser_uint8 (v_version v) @ ser_uint8 (v_type v) @ v_proposal v @ ser_uint8 (v_vote v)
     @ ser_COutPoint (v_utxo v) @ v_vinhash v @ ser_vector (v_signature v)"

section \<open>Scenario data\<close>

text \<open>
  A small environment for the scenarios of section 8 of the specification: the hash is the
  sum of the bytes, the recovered key is the signature, and the key id is the key.
\<close>

definition toy_hash256 :: "byte list \<Rightarrow> uint256" where
  "toy_hash256 bs = fold (+) bs 0 # replicate 31 0"

definition toy_env :: Env where
  "toy_env =
     \<lparr>hash256 = toy_hash256, recoverCompact = (\<lambda>h sig. sig), pubkeyID = (\<lambda>pk. pk),
      getKeyIDForUTXO = (\<lambda>u. Some (replicate 20 7, 500000000)),
      validDestination = (\<lambda>a. a \<noteq> []), scriptForAddress = map of_char,
      MAX_OP_RETURN_RELAY = 160,
      IsCoinBase = (\<lambda>tx. length (vin tx) = 1 \<and> prevout (hd (vin tx)) = COutPoint_null),
      IsProofOfStake = (\<lambda>b. length (vtx b) > 1),
      IsVoteSpent = (\<lambda>u. False)\<rparr>"

text \<open>Superblock period 100, one coin of \<open>100000000\<close> units per vote.\<close>

definition toy_params :: Params where
  "toy_params =
     \<lparr>superblock = 100, governanceBlock = 100, proposalCutoff = 20, votingCutoff = 10,
      proposalMinAmount = 10, proposalMaxAmount = 40000, voteMinUtxoAmount = 100000000,
      voteBalance = 100000000, GetBlockSubsidy = (\<lambda>h. 40001)\<rparr>"

definition P_alpha :: Proposal where
  "P_alpha =
     \<lparr>p_version = 1, p_type = 1, p_name = ''alpha'', p_superblock = 200, p_amount = 100,
      p_address = ''addr'', p_url = [], p_description = [], p_blockNumber = 150\<rparr>"

definition P_beta :: Proposal where
  "P_beta =
     \<lparr>p_version = 1, p_type = 1, p_name = ''beta'', p_superblock = 200, p_amount = 50,
      p_address = ''addr'', p_url = [], p_description = [], p_blockNumber = 151\<rparr>"

text \<open>
  A vote on \<open>P_alpha\<close>: its kind, the byte that tells its utxo, its transaction and its
  key from those of the other votes, and its amount.
\<close>

definition mk_vote :: "byte \<Rightarrow> byte \<Rightarrow> CAmount \<Rightarrow> Vote" where
  "mk_vote kind i amount =
     \<lparr>v_version = 1, v_type = 2, v_proposal = Proposal_getHash toy_env P_alpha, v_vote = kind,
      v_vinhash = replicate 12 i, v_signature = replicate 20 i,
      v_utxo = \<lparr>op_hash = replicate 32 i, op_n = 0\<rparr>, v_pubkey = replicate 20 i,
      v_outpoint = \<lparr>op_hash = replicate 32 (i + 100), op_n = 0\<rparr>, v_time = 1000,
      v_amount = amount, v_keyid = replicate 20 i, v_blockNumber = 155, v_spentBlock = 0,
      v_spentHash = uint256_null\<rparr>"

definition vote_yes :: Vote where "vote_yes = mk_vote YES 1 600000000"
definition vote_no :: Vote where "vote_no = mk_vote NO 2 400000000"
definition vote_spent :: Vote where
  "vote_spent = (mk_vote YES 3 500000000)\<lparr>v_spentBlock := 160, v_spentHash := replicate 32 50\<rparr>"

definition store_of :: "Vote list \<Rightarrow> Governance" where
  "store_of vs =
     \<lparr>proposals = [(Proposal_getHash toy_env P_alpha, P_alpha)],
      votes = map (\<lambda>v. (Vote_getHash toy_env v, v)) vs,
      sbvotes = [(200, map (\<lambda>v. (Vote_getHash toy_env v, v)) vs)]\<rparr>"

text \<open>A proof-of-stake block: a coinbase and a coinstake, with no payee.\<close>

definition pos_block :: CBlock where
  "pos_block =
     \<lparr>vtx = [\<lparr>tx_hash = replicate 32 60, vin = [\<lparr>prevout = COutPoint_null\<rparr>], vout = []\<rparr>,
             \<lparr>tx_hash = replicate 32 61,
               vin = [\<lparr>prevout = \<lparr>op_hash = replicate 32 62, op_n = 0\<rparr>\<rparr>],
               vout = [\<lparr>nValue = 0, scriptPubKey = []\<rparr>,
                       \<lparr>nValue = 1, scriptPubKey = [118]\<rparr>]\<rparr>],
      nTime = 2000\<rparr>"

text \<open>
  Scenario S5: the block of height 160, whose second transaction spends the utxo of
  \<open>vote_spent\<close>. No output carries governance data.
\<close>

definition spend_block :: CBlock where
  "spend_block =
     \<lparr>vtx = [\<lparr>tx_hash = replicate 32 60, vin = [\<lparr>prevout = COutPoint_null\<rparr>],
               vout = [\<lparr>nValue = 1, scriptPubKey = [118]\<rparr>]\<rparr>,
             \<lparr>tx_hash = replicate 32 50,
               vin = [\<lparr>prevout = \<lparr>op_hash = replicate 32 3, op_n = 0\<rparr>\<rparr>],
               vout = [\<lparr>nValue = 1, scriptPubKey = [118]\<rparr>]\<rparr>],
      nTime = 2000\<rparr>"

text \<open>
  Outputs with malformed data behind \<open>OP_RETURN\<close>: a push that announces five bytes and
  holds one; a payload of the two bytes of a header with version 2; a payload of one byte,
  too short for the header; and a payload with the header of a proposal and nothing else.
\<close>

definition out_short_push :: CTxOut where
  "out_short_push = \<lparr>nValue = 0, scriptPubKey = [OP_RETURN, 5, 1]\<rparr>"

definition out_bad_version :: CTxOut where
  "out_bad_version = \<lparr>nValue = 0, scriptPubKey = [OP_RETURN, 2, 2, 1]\<rparr>"

definition out_short_header :: CTxOut where
  "out_short_header = \<lparr>nValue = 0, scriptPubKey = [OP_RETURN, 1, 1]\<rparr>"

definition out_short_body :: CTxOut where
  "out_short_body = \<lparr>nValue = 0, scriptPubKey = [OP_RETURN, 2, 1, 1]\<rparr>"

definition tx_of :: "CTxOut list \<Rightarrow> CTransaction" where
  "tx_of outs =
     \<lparr>tx_hash = replicate 32 70, vin = [\<lparr>prevout = \<lparr>op_hash = replicate 32 5, op_n = 1\<rparr>\<rparr>],
      vout = outs\<rparr>"

definition block_of :: "CTxOut list \<Rightarrow> CBlock" where
  "block_of outs = \<lparr>vtx = [tx_of outs], nTime = 1000\<rparr>"

text \<open>
  Two votes on \<open>alpha\<close> with the utxo \<open>09..09:0\<close>, as \<open>dataFromBlock\<close> reads them at
  height 160: \<open>cast_vote NO\<close> and \<open>cast_vote YES\<close>. Each is carried by a transaction of its
  own, in one output whose script is \<open>OP_RETURN\<close>, \<open>OP_PUSHDATA1\<close>, the length of the
  payload and the payload. \<open>two_vote_block\<close> holds the transaction with the NO vote, then
  the one with the YES vote.
\<close>

definition cast_vote :: "byte \<Rightarrow> Vote" where
  "cast_vote kind =
     \<lparr>v_version = 1, v_type = 2, v_proposal = Proposal_getHash toy_env P_alpha, v_vote = kind,
      v_vinhash = makeVinHash toy_env \<lparr>op_hash = replicate 32 (5 + kind), op_n = 1\<rparr>,
      v_signature = replicate 20 7, v_utxo = \<lparr>op_hash = replicate 32 9, op_n = 0\<rparr>,
      v_pubkey = replicate 20 7,
      v_outpoint = \<lparr>op_hash = replicate 32 (70 + kind), op_n = 0\<rparr>, v_time = 1000,
      v_amount = 500000000, v_keyid = replicate 20 7, v_blockNumber = 160, v_spentBlock = 0,
      v_spentHash = uint256_null\<rparr>"

definition vote_out :: "byte \<Rightarrow> CTxOut" where
  "vote_out kind =
     \<lparr>nValue = 0,
      scriptPubKey = OP_RETURN # 76 # of_nat (length (Vote_Serialize (cast_vote kind)))
                     # Vote_Serialize (cast_vote kind)\<rparr>"

definition vote_tx :: "byte \<Rightarrow> CTransaction" where
  "vote_tx kind =
     \<lparr>tx_hash = replicate 32 (70 + kind),
      vin = [\<lparr>prevout = \<lparr>op_hash = replicate 32 (5 + kind), op_n = 1\<rparr>\<rparr>],
      vout = [vote_out kind]\<rparr>"

definition two_vote_block :: CBlock where
  "two_vote_block = \<lparr>vtx = [vote_tx NO, vote_tx YES], nTime = 1000\<rparr>"

text \<open>
  Scenario S1: the output that submits \<open>alpha\<close>, with the serialised proposal pushed behind
  \<open>OP_RETURN\<close>, and the store after the block of height 150 that holds it.
\<close>

definition alpha_out :: CTxOut where
  "alpha_out =
     \<lparr>nValue = 0,
      scriptPubKey = OP_RETURN # of_nat (length (Proposal_Serialize P_alpha))
                     # Proposal_Serialize P_alpha\<rparr>"

definition alpha_store :: Governance where
  "alpha_store =
     \<lparr>proposals = [(Proposal_getHash toy_env P_alpha, P_alpha)], votes = [], sbvotes = []\<rparr>"

section \<open>Lemmas\<close>

subsection \<open>The state store\<close>

lemma Vote_getHash_spend [simp]: "Vote_getHash env (Vote_spend v b t) = Vote_getHash env v"
  by (simp add: Vote_getHash_def Vote_hashBytes_def Vote_spend_def)

lemma Vote_getHash_unspend [simp]: "Vote_getHash env (fst (Vote_unspend v b t)) = Vote_getHash env v"
  by (simp add: Vote_getHash_def Vote_hashBytes_def Vote_unspend_def)

lemma v_proposal_spend [simp]: "v_proposal (Vote_spend v b t) = v_proposal v"
  by (simp add: Vote_spend_def)

lemma Vote_unspend_spend:
  "v_spentBlock v = 0 \<Longrightarrow> v_spentHash v = uint256_null \<Longrightarrow> fst (Vote_unspend (Vote_spend v b t) b t) = v"
  by (simp add: Vote_unspend_def Vote_spend_def)

lemma Vote_unspend_other:
  "\<not> (v_spentBlock v = b \<and> v_spentHash v = t) \<Longrightarrow> fst (Vote_unspend v b t) = v"
  by (auto simp add: Vote_unspend_def)

lemma deref_assign: "deref (assign st ptr v) ptr = Some v"
  by (simp add: deref_def assign_def AList.update_conv')

lemma assign_assign: "assign (assign st ptr v) ptr w = assign st ptr w"
  by (simp add: assign_def umap_index_def AList.update_conv' AList.update_last)

lemma assign_deref: "deref st ptr = Some v \<Longrightarrow> assign st ptr v = st"
  by (auto simp add: assign_def deref_def umap_index_def AList.update_triv split: option.splits)

lemma proposals_assign [simp]: "proposals (assign st ptr v) = proposals st"
  by (simp add: assign_def)

lemma votes_assign [simp]: "votes (assign st ptr v) = votes st"
  by (simp add: assign_def)

lemma deref_votes_update [simp]: "deref (st\<lparr>votes := m\<rparr>) ptr = deref st ptr"
  by (simp add: deref_def)

lemma assign_votes_update: "assign (st\<lparr>votes := m\<rparr>) ptr v = (assign st ptr v)\<lparr>votes := m\<rparr>"
  by (simp add: assign_def)

lemma nspent: "\<not> Vote_spent v \<longleftrightarrow> v_spentBlock v \<le> 0"
  by (auto simp: Vote_spent_def)

lemma getVotes_unspent: "v \<in> set (getVotes st) \<Longrightarrow> \<not> Vote_spent v"
  by (auto simp: getVotes_def)

lemma getVotes_proposal_unspent: "v \<in> set (getVotes_proposal st ph) \<Longrightarrow> \<not> Vote_spent v"
  by (auto simp: getVotes_proposal_def Let_def split: if_splits)

lemma getVotes_superblock_unspent: "v \<in> set (getVotes_superblock st sb) \<Longrightarrow> \<not> Vote_spent v"
  by (auto simp: getVotes_superblock_def Let_def split: if_splits)

lemma getProposalsForSuperblock_unspent:
  "v \<in> set (snd (getProposalsForSuperblock env st sb)) \<Longrightarrow> \<not> Vote_spent v"
  by (auto simp: getProposalsForSuperblock_def Let_def dest: getVotes_superblock_unspent)

lemma getMutableSBVotes_unspent:
  assumes "Governance_wf st" "ptr \<in> set (getMutableSBVotes st ph)"
  shows "\<exists>v. deref st ptr = Some v \<and> \<not> Vote_spent v \<and> v_proposal v = ph"
proof -
  from assms(2) obtain p where p: "map_of (proposals st) ph = Some p"
    by (auto simp: getMutableSBVotes_def umap_count_def split: if_splits)
  from assms(2) p obtain vs where vs: "map_of (sbvotes st) (p_superblock p) = Some vs"
    by (auto simp: getMutableSBVotes_def umap_count_def umap_index_def Let_def split: if_splits)
  from assms(2) p vs obtain item where it: "item \<in> set vs" "ptr = (p_superblock p, fst item)"
     "v_proposal (snd item) = ph" "\<not> Vote_spent (snd item)"
    by (auto simp: getMutableSBVotes_def umap_count_def umap_index_def Let_def split: if_splits)
  have "(p_superblock p, vs) \<in> set (sbvotes st)" using vs by (rule map_of_SomeD)
  then have "umap_wf vs" using assms(1) by (auto simp: Governance_wf_def list_all_iff)
  then have "map_of vs (fst item) = Some (snd item)" using it(1)
    by (simp add: umap_wf_def)
  then show ?thesis using it vs by (simp add: deref_def)
qed

subsection \<open>Sorting and the greedy fill\<close>

lemma payee_order_iff: "payee_order a b \<longleftrightarrow> \<not> payee_less b a"
  by (auto simp: payee_order_def payee_less_def netyes_def)

lemma payee_order_trans: "payee_order a b \<Longrightarrow> payee_order b c \<Longrightarrow> payee_order a c"
  by (auto simp: payee_order_def)

lemma payee_less_order: "payee_less a b \<Longrightarrow> payee_order a b"
  by (auto simp: payee_order_def payee_less_def netyes_def split: if_splits)

lemma set_sort_insert [simp]: "set (sort_insert lt x ys) = insert x (set ys)"
  by (induction ys) auto

lemma mset_sort_insert [simp]: "mset (sort_insert lt x ys) = add_mset x (mset ys)"
  by (induction ys) auto

lemma mset_std_sort [simp]: "mset (std_sort lt xs) = mset xs"
  by (induction xs) (auto simp: std_sort_def)

lemma sorted_sort_insert:
  "sorted_wrt payee_order ys \<Longrightarrow> sorted_wrt payee_order (sort_insert payee_less x ys)"
proof (induction ys)
  case Nil
  then show ?case by simp
next
  case (Cons y ys)
  show ?case
  proof (cases "payee_less y x")
    case True
    then show ?thesis using Cons by (auto dest: payee_less_order)
  next
    case False
    then have xy: "payee_order x y" by (simp add: payee_order_iff)
    have "\<forall>z\<in>set ys. payee_order x z" using Cons.prems xy by (auto intro: payee_order_trans)
    then show ?thesis using False xy Cons.prems by simp
  qed
qed

lemma sorted_std_sort: "sorted_wrt payee_order (std_sort payee_less xs)"
proof (induction xs)
  case Nil
  then show ?case by (simp add: std_sort_def)
next
  case (Cons x xs)
  then show ?case using sorted_sort_insert[of "std_sort payee_less xs" x] by (simp add: std_sort_def)
qed

lemma payees_loop_greedy: "payees_loop env props tot r = r @ greedy_fill env tot props"
  by (induction props arbitrary: tot r) (auto simp: payee_out_def)

lemma std_sort_Nil_iff: "std_sort lt xs = [] \<longleftrightarrow> xs = []"
  by (metis mset_std_sort mset_zero_iff)

subsection \<open>Ordered sets\<close>

lemma map_insort_key: "map kf (insort_key kf x xs) = insort (kf x) (map kf xs)"
  by (induction xs) auto

lemma set_oset_insert_keys: "kf ` set (oset_insert kf x s) = insert (kf x) (kf ` set s)"
  by (auto simp: oset_insert_def oset_count_def set_insort_key)

lemma set_oset_insert: "set (oset_insert kf x s) \<subseteq> insert x (set s)"
  by (auto simp: oset_insert_def set_insort_key)

lemma distinct_oset_insert: "distinct (map kf s) \<Longrightarrow> distinct (map kf (oset_insert kf x s))"
  by (auto simp: oset_insert_def oset_count_def map_insort_key distinct_insort)

lemma set_oset_insert_range_keys:
  "kf ` set (oset_insert_range kf xs s) = kf ` set xs \<union> kf ` set s"
  unfolding oset_insert_range_def
proof (induction xs arbitrary: s)
  case Nil then show ?case by simp
next
  case (Cons x xs)
  show ?case using Cons[of "oset_insert kf x s"] set_oset_insert_keys[of kf x s] by auto
qed

lemma set_oset_insert_range: "set (oset_insert_range kf xs s) \<subseteq> set xs \<union> set s"
  unfolding oset_insert_range_def
proof (induction xs arbitrary: s)
  case Nil then show ?case by simp
next
  case (Cons x xs)
  show ?case using Cons[of "oset_insert kf x s"] set_oset_insert[of kf x s] by auto
qed

lemma distinct_oset_insert_range:
  "distinct (map kf s) \<Longrightarrow> distinct (map kf (oset_insert_range kf xs s))"
  unfolding oset_insert_range_def
  by (induction xs arbitrary: s) (auto simp: distinct_oset_insert)

subsection \<open>The loops of getTally\<close>

lemma omap_assign_values:
  "(a', v') \<in> set (omap_assign kf a v m) \<Longrightarrow> v' = v \<or> (a', v') \<in> set m"
  by (induction m) (auto split: if_splits)

lemma omap_assign_keys:
  "(a', v') \<in> set (omap_assign kf a v m) \<Longrightarrow> a' = a \<or> a' \<in> fst ` set m"
  by (induction m) (auto split: if_splits simp: rev_image_eqI)

lemma umap_index_in: "umap_index [] m k = [] \<or> (k, umap_index [] m k) \<in> set m"
  by (auto simp: umap_index_def split: option.splits dest: map_of_SomeD)

lemma groups_within_index: "groups_within m S \<Longrightarrow> set (umap_index [] m k) \<subseteq> S"
  using umap_index_in[of m k] by (fastforce simp: groups_within_def list_all_iff)

lemma groups_within_assign:
  "groups_within m S \<Longrightarrow> set vs \<subseteq> S \<Longrightarrow> groups_within (omap_assign kf a vs m) S"
  unfolding groups_within_def list_all_iff by (auto dest!: omap_assign_values) 

lemma tally_prep_within:
  assumes "groups_within (fst acc) S" "groups_within (snd acc) S" "vote \<in> S"
  shows "groups_within (fst (tally_prep env vote acc)) S \<and> groups_within (snd (tally_prep env vote acc)) S"
proof -
  have a: "set (oset_insert (Vote_getHash env) vote (umap_index [] (fst acc) k)) \<subseteq> S" for k
    using set_oset_insert[of "Vote_getHash env" vote "umap_index [] (fst acc) k"]
      groups_within_index[OF assms(1), of k] assms(3) by auto
  have b: "set (oset_insert (Vote_getHash env) vote (umap_index [] (snd acc) k)) \<subseteq> S" for k
    using set_oset_insert[of "Vote_getHash env" vote "umap_index [] (snd acc) k"]
      groups_within_index[OF assms(2), of k] assms(3) by auto
  show ?thesis
    using a b assms(1,2) by (simp add: tally_prep_def Let_def groups_within_assign)
qed

lemma fold_tally_prep_within:
  "groups_within (fst acc) S \<Longrightarrow> groups_within (snd acc) S \<Longrightarrow> set vs \<subseteq> S \<Longrightarrow>
   groups_within (fst (fold (tally_prep env) vs acc)) S \<and> groups_within (snd (fold (tally_prep env) vs acc)) S"
proof (induction vs arbitrary: acc)
  case Nil then show ?case by simp
next
  case (Cons v vs)
  have "groups_within (fst (tally_prep env v acc)) S \<and> groups_within (snd (tally_prep env v acc)) S"
    using Cons.prems by (intro tally_prep_within) auto
  then show ?case using Cons.IH[of "tally_prep env v acc"] Cons.prems by simp
qed

lemma fold_insert_range_distinct:
  "distinct (map kf acc) \<Longrightarrow> distinct (map kf (fold (\<lambda>vote a. oset_insert_range kf (g vote) a) xs acc))"
  by (induction xs arbitrary: acc) (auto simp: distinct_oset_insert_range)

lemma fold_insert_range_set:
  "set (fold (\<lambda>vote a. oset_insert_range kf (g vote) a) xs acc) \<subseteq> set acc \<union> (\<Union>x\<in>set xs. set (g x))"
proof (induction xs arbitrary: acc)
  case Nil then show ?case by simp
next
  case (Cons x xs)
  show ?case using Cons[of "oset_insert_range kf (g x) acc"] set_oset_insert_range[of kf "g x" acc]
    by auto
qed

lemma tally_allUnique_distinct:
  "distinct (map (Vote_getHash env) (tally_allUnique env uvd txVotes counted))"
  unfolding tally_allUnique_def Let_def
  by (intro distinct_map_filter fold_insert_range_distinct distinct_oset_insert_range) simp

lemma tally_allUnique_fresh:
  "v \<in> set (tally_allUnique env uvd txVotes counted) \<Longrightarrow> Vote_getHash env v \<notin> Vote_getHash env ` set counted"
  by (simp add: tally_allUnique_def Let_def oset_count_def)

lemma tally_allUnique_within:
  assumes "groups_within uvd S" "set txVotes \<subseteq> S"
  shows "set (tally_allUnique env uvd txVotes counted) \<subseteq> S"
proof -
  let ?g = "\<lambda>vote. umap_index [] uvd (pubkeyID env (v_pubkey vote))"
  have 0: "set (oset_insert_range (Vote_getHash env) txVotes []) \<subseteq> S"
    using set_oset_insert_range[of "Vote_getHash env" txVotes "[]"] assms(2) by auto
  have "(\<Union>x\<in>set txVotes. set (?g x)) \<subseteq> S"
    using groups_within_index[OF assms(1)] by auto
  then have "set (fold (\<lambda>vote a. oset_insert_range (Vote_getHash env) (?g vote) a) txVotes
                (oset_insert_range (Vote_getHash env) txVotes [])) \<subseteq> S"
    using fold_insert_range_set[of "Vote_getHash env" ?g txVotes "oset_insert_range (Vote_getHash env) txVotes []"] 0
    by blast
  then show ?thesis by (auto simp: tally_allUnique_def Let_def)
qed

lemma groups_step_inv:
  assumes "groups_inv env S acc" "groups_within uvd S" "set (snd item) \<subseteq> S"
  shows "groups_inv env S (tally_groups_step env uvd item acc)"
proof -
  let ?u = "tally_allUnique env uvd (snd item) (fst acc)"
  let ?k = "Vote_getHash env"
  have d: "distinct (map ?k ?u)" by (rule tally_allUnique_distinct)
  have f: "?k ` set ?u \<inter> ?k ` set (concat (snd acc)) = {}"
    using tally_allUnique_fresh[of _ env uvd "snd item" "fst acc"] assms(1)
    by (auto simp: groups_inv_def)
  have w: "set ?u \<subseteq> S" using assms(2,3) by (rule tally_allUnique_within)
  have k: "?k ` set (oset_insert_range ?k ?u (fst acc)) = ?k ` set (concat (snd acc @ [?u]))"
    using assms(1) unfolding set_oset_insert_range_keys groups_inv_def by auto
  have dd: "distinct (map ?k (concat (snd acc @ [?u])))"
    using d f assms(1) by (auto simp: groups_inv_def)
  have s: "set (concat (snd acc @ [?u])) \<subseteq> S"
    using w assms(1) by (auto simp: groups_inv_def)
  show ?thesis
  proof (cases "?u = []")
    case True
    then show ?thesis using assms(1) by (simp add: tally_groups_step_def Let_def)
  next
    case False
    then have "tally_groups_step env uvd item acc = (oset_insert_range ?k ?u (fst acc), snd acc @ [?u])"
      by (simp add: tally_groups_step_def Let_def)
    then show ?thesis using k dd s unfolding groups_inv_def by simp
  qed
qed

lemma fold_groups_inv:
  "groups_inv env S acc \<Longrightarrow> groups_within uvd S \<Longrightarrow> groups_within uv S \<Longrightarrow>
   groups_inv env S (fold (tally_groups_step env uvd) uv acc)"
proof (induction uv arbitrary: acc)
  case Nil then show ?case by simp
next
  case (Cons item uv)
  have 1: "set (snd item) \<subseteq> S" using Cons.prems(3) by (simp add: groups_within_def list_all_iff)
  have 2: "groups_within uv S" using Cons.prems(3) by (simp add: groups_within_def list_all_iff)
  show ?case using Cons.IH[OF groups_step_inv[OF Cons.prems(1,2) 1] Cons.prems(2) 2] by simp
qed

lemma tally_groups_inv:
  "distinct (map (Vote_getHash env) (concat (tally_groups env p vs)))
   \<and> set (concat (tally_groups env p vs)) \<subseteq> {v \<in> set vs. v_proposal v = p}"
proof -
  let ?S = "{v \<in> set vs. v_proposal v = p}"
  let ?pv = "filter (\<lambda>vote. \<not> (p \<noteq> v_proposal vote)) vs"
  let ?prep = "fold (tally_prep env) ?pv ([], [])"
  let ?r = "fold (tally_groups_step env (snd ?prep)) (fst ?prep) ([], [])"
  have w: "groups_within (fst ?prep) ?S \<and> groups_within (snd ?prep) ?S"
    by (rule fold_tally_prep_within) (auto simp: groups_within_def list_all_iff)
  have "groups_inv env ?S ?r"
    using w by (intro fold_groups_inv) (auto simp: groups_inv_def)
  moreover have "tally_groups env p vs = snd ?r"
    by (simp add: tally_groups_def Let_def)
  ultimately show ?thesis
    unfolding groups_inv_def by metis
qed

lemma fold_tally_step_groups:
  "fold (tally_step env params uvd) uv (c, map (userTally params) gs)
   = (fst (fold (tally_groups_step env uvd) uv (c, gs)),
      map (userTally params) (snd (fold (tally_groups_step env uvd) uv (c, gs))))"
proof (induction uv arbitrary: c gs)
  case Nil then show ?case by simp
next
  case (Cons item uv)
  let ?u = "tally_allUnique env uvd (snd item) c"
  show ?case
  proof (cases "?u = []")
    case True
    then show ?thesis using Cons[of c gs] by (simp add: tally_step_def tally_groups_step_def Let_def)
  next
    case False
    then show ?thesis
      using Cons[of "oset_insert_range (Vote_getHash env) ?u c" "gs @ [?u]"]
      by (simp add: tally_step_def tally_groups_step_def Let_def)
  qed
qed

lemma getTally_groups:
  "getTally env p vs params = fold tally_sum (map (userTally params) (tally_groups env p vs)) Tally_default"
  using fold_tally_step_groups[of env params _ _ "[]" "[]"]
  by (simp add: getTally_def tally_groups_def Let_def)

lemma YES_NO_ABSTAIN: "YES \<noteq> NO" "YES \<noteq> ABSTAIN" "NO \<noteq> ABSTAIN"
  by (simp_all add: YES_def NO_def ABSTAIN_def)

lemma amount_of_append [simp]: "amount_of k (xs @ ys) = amount_of k xs + amount_of k ys"
  by (simp add: amount_of_def)

lemma amount_of_Nil [simp]: "amount_of k [] = 0"
  by (simp add: amount_of_def)

lemma fold_tally_add:
  "t_cyes (fold tally_add g t) = t_cyes t + amount_of YES g
   \<and> t_cno (fold tally_add g t) = t_cno t + amount_of NO g
   \<and> t_cabstain (fold tally_add g t) = t_cabstain t + amount_of ABSTAIN g"
  using YES_NO_ABSTAIN
  by (induction g arbitrary: t) (auto simp: tally_add_def amount_of_def)

lemma userTally_amounts:
  "t_cyes (userTally params g) = amount_of YES g
   \<and> t_cno (userTally params g) = amount_of NO g
   \<and> t_cabstain (userTally params g) = amount_of ABSTAIN g"
  using fold_tally_add[of g Tally_default]
  by (simp add: userTally_def Let_def Tally_default_def)

lemma userTally_nonneg:
  "0 \<le> t_yes (userTally params g) \<and> 0 \<le> t_no (userTally params g) \<and> 0 \<le> t_abstain (userTally params g)"
  by (simp add: userTally_def Let_def)

lemma fold_tally_sum_amounts:
  "t_cyes (fold tally_sum (map (userTally params) gs) t) = t_cyes t + amount_of YES (concat gs)
   \<and> t_cno (fold tally_sum (map (userTally params) gs) t) = t_cno t + amount_of NO (concat gs)
   \<and> t_cabstain (fold tally_sum (map (userTally params) gs) t) = t_cabstain t + amount_of ABSTAIN (concat gs)"
  by (induction gs arbitrary: t) (auto simp: tally_sum_def userTally_amounts)

lemma fold_tally_sum_nonneg:
  "0 \<le> t_yes t \<and> 0 \<le> t_no t \<and> 0 \<le> t_abstain t \<Longrightarrow>
   0 \<le> t_yes (fold tally_sum (map (userTally params) gs) t)
   \<and> 0 \<le> t_no (fold tally_sum (map (userTally params) gs) t)
   \<and> 0 \<le> t_abstain (fold tally_sum (map (userTally params) gs) t)"
proof (induction gs arbitrary: t)
  case Nil then show ?case by simp
next
  case (Cons g gs)
  have "0 \<le> t_yes (tally_sum (userTally params g) t) \<and> 0 \<le> t_no (tally_sum (userTally params g) t)
        \<and> 0 \<le> t_abstain (tally_sum (userTally params g) t)"
    using Cons.prems userTally_nonneg[of params g] by (simp add: tally_sum_def)
  from Cons.IH[OF this] show ?case by simp
qed

lemma getTally_nonneg:
  "0 \<le> t_yes (getTally env p vs params) \<and> 0 \<le> t_no (getTally env p vs params)
   \<and> 0 \<le> t_abstain (getTally env p vs params)"
  unfolding getTally_groups
  by (rule fold_tally_sum_nonneg) (simp add: Tally_default_def)

subsection \<open>The test on a tally\<close>

lemma results_erased_iff:
  "0 \<le> t_no t \<Longrightarrow> \<not> results_erased t u \<longleftrightarrow> tally_passes t u"
  by (auto simp: results_erased_def tally_passes_def Let_def not_less mult.commute)

lemma tally_passes_int:
  "tally_passes t u \<longleftrightarrow> t_yes t + t_no t > 0 \<and> 5 * t_yes t \<ge> 3 * (t_yes t + t_no t)
      \<and> 4 * (t_yes t + t_no t + t_abstain t) \<ge> u \<and> t_yes t > 0"
proof -
  have a: "real_of_int (t_yes t) / real_of_int (t_yes t + t_no t) \<ge> 0.60 \<longleftrightarrow> 5 * t_yes t \<ge> 3 * (t_yes t + t_no t)"
    if "t_yes t + t_no t > 0"
  proof -
    have "real_of_int (t_yes t) / real_of_int (t_yes t + t_no t) \<ge> 0.60
       \<longleftrightarrow> 0.60 * real_of_int (t_yes t + t_no t) \<le> real_of_int (t_yes t)"
      using that by (simp add: pos_le_divide_eq)
    also have "\<dots> \<longleftrightarrow> real_of_int (3 * (t_yes t + t_no t)) \<le> real_of_int (5 * t_yes t)"
      by (simp add: algebra_simps)
    also have "\<dots> \<longleftrightarrow> 3 * (t_yes t + t_no t) \<le> 5 * t_yes t"
      by (rule of_int_le_iff)
    finally show ?thesis .
  qed
  have b: "real_of_int (t_yes t + t_no t + t_abstain t) \<ge> 0.25 * real_of_int u
      \<longleftrightarrow> 4 * (t_yes t + t_no t + t_abstain t) \<ge> u"
  proof -
    have "real_of_int (t_yes t + t_no t + t_abstain t) \<ge> 0.25 * real_of_int u
       \<longleftrightarrow> real_of_int u \<le> real_of_int (4 * (t_yes t + t_no t + t_abstain t))"
      by (simp add: algebra_simps)
    also have "\<dots> \<longleftrightarrow> u \<le> 4 * (t_yes t + t_no t + t_abstain t)"
      by (rule of_int_le_iff)
    finally show ?thesis .
  qed
  show ?thesis unfolding tally_passes_def using a b by auto
qed

lemma omap_assign_entries:
  "e \<in> set (omap_assign kf a v m) \<Longrightarrow>
     e = (a, v) \<or> e \<in> set m \<or> (\<exists>w. (fst e, w) \<in> set m \<and> kf (fst e) = kf a \<and> snd e = v)"
  by (induction m) (auto split: if_splits)

lemma omap_assign_has:
  "\<exists>a'. (a', v) \<in> set (omap_assign kf a v m) \<and> kf a' = kf a"
  by (induction m) auto

lemma omap_assign_keeps:
  "(b, w) \<in> set m \<Longrightarrow> kf b \<noteq> kf a \<Longrightarrow> (b, w) \<in> set (omap_assign kf a v m)"
  by (induction m) auto

lemma omap_assign_keyset:
  "(kf \<circ> fst) ` set (omap_assign kf a v m) = insert (kf a) ((kf \<circ> fst) ` set m)"
  by (induction m) auto

lemma omap_assign_distinct:
  "sorted_wrt (<) (map (kf \<circ> fst) m) \<Longrightarrow> sorted_wrt (<) (map (kf \<circ> fst) (omap_assign kf a v m))"
proof (induction m)
  case Nil then show ?case by simp
next
  case (Cons e m)
  have k: "(kf \<circ> fst) ` set (omap_assign kf a v m) = insert (kf a) ((kf \<circ> fst) ` set m)"
    by (rule omap_assign_keyset)
  show ?case using Cons k by (auto simp: image_iff) 
qed

subsection \<open>Superblock results\<close>

lemma keyed_inj:
  assumes "proposals_keyed env st" "p \<in> snd ` set (proposals st)" "q \<in> snd ` set (proposals st)"
    "Proposal_getHash env p = Proposal_getHash env q"
  shows "p = q"
proof -
  from assms(2,3) obtain k k' where kk: "(k, p) \<in> set (proposals st)" "(k', q) \<in> set (proposals st)"
    by auto
  with assms(1) have "k = Proposal_getHash env p" "k' = Proposal_getHash env q"
    by (auto simp: proposals_keyed_def list_all_iff)
  with assms(4) have "k = k'" by simp
  moreover have "distinct (map fst (proposals st))" using assms(1) by (simp add: proposals_keyed_def umap_wf_def)
  ultimately show ?thesis using kk by (metis map_of_is_SomeI option.inject)
qed

lemma uniqueAmount_loop_sum:
  assumes "\<forall>v\<in>set vs. v_amount v = f (v_utxo v)"
  shows "uniqueAmount_loop vs unique acc = acc + sum f (v_utxo ` set vs - set unique)"
  using assms
proof (induction vs arbitrary: unique acc)
  case Nil then show ?case by simp
next
  case (Cons v vs)
  show ?case
  proof (cases "v_utxo v \<in> set unique")
    case True
    then have "v_utxo ` set (v # vs) - set unique = v_utxo ` set vs - set unique" by auto
    then show ?thesis using True Cons by simp
  next
    case False
    define A where "A = v_utxo ` set vs - set (v_utxo v # unique)"
    have e: "v_utxo ` set (v # vs) - set unique = insert (v_utxo v) A"
      using False by (auto simp: A_def)
    have "sum f (insert (v_utxo v) A) = f (v_utxo v) + sum f A"
      by (rule sum.insert) (simp_all add: A_def)
    then have "sum f (v_utxo ` set (v # vs) - set unique)
        = f (v_utxo v) + sum f (v_utxo ` set vs - set (v_utxo v # unique))"
      using e by (simp add: A_def)
    then show ?thesis using False Cons by simp
  qed
qed

lemma fold_omap_entries:
  assumes "\<forall>e\<in>set acc. fst e \<in> S \<and> snd e = G (kf (fst e))" "set ps \<subseteq> S"
    "e \<in> set (fold (\<lambda>p r. omap_assign kf p (G (kf p)) r) ps acc)"
  shows "fst e \<in> S \<and> snd e = G (kf (fst e))"
  using assms
proof (induction ps arbitrary: acc)
  case Nil then show ?case by simp
next
  case (Cons p ps)
  have "\<forall>e\<in>set (omap_assign kf p (G (kf p)) acc). fst e \<in> S \<and> snd e = G (kf (fst e))"
  proof
    fix x assume "x \<in> set (omap_assign kf p (G (kf p)) acc)"
    from omap_assign_entries[OF this] show "fst x \<in> S \<and> snd x = G (kf (fst x))"
      using Cons.prems(1,2) by (auto simp: rev_image_eqI)
  qed
  then show ?case using Cons.IH[of "omap_assign kf p (G (kf p)) acc"] Cons.prems by simp
qed

lemma fold_omap_keeps:
  assumes "\<exists>a'. (a', G k) \<in> set acc \<and> kf a' = k"
  shows "\<exists>a'. (a', G k) \<in> set (fold (\<lambda>p r. omap_assign kf p (G (kf p)) r) ps acc) \<and> kf a' = k"
  using assms
proof (induction ps arbitrary: acc)
  case Nil then show ?case by simp
next
  case (Cons p ps)
  from Cons.prems obtain a' where a: "(a', G k) \<in> set acc" "kf a' = k" by auto
  have "\<exists>a'. (a', G k) \<in> set (omap_assign kf p (G (kf p)) acc) \<and> kf a' = k"
  proof (cases "kf p = k")
    case True
    then show ?thesis using omap_assign_has[of "G (kf p)" kf p acc] by auto
  next
    case False
    then show ?thesis using omap_assign_keeps[OF a(1), of kf p "G (kf p)"] a(2) by auto
  qed
  from Cons.IH[OF this] show ?case by simp
qed

lemma fold_omap_complete:
  assumes "p \<in> set ps"
  shows "\<exists>a'. (a', G (kf p)) \<in> set (fold (\<lambda>p r. omap_assign kf p (G (kf p)) r) ps acc) \<and> kf a' = kf p"
  using assms
proof (induction ps arbitrary: acc)
  case Nil then show ?case by simp
next
  case (Cons q ps)
  show ?case
  proof (cases "p = q")
    case True
    have "\<exists>a'. (a', G (kf p)) \<in> set (omap_assign kf q (G (kf q)) acc) \<and> kf a' = kf p"
      using True omap_assign_has[of "G (kf q)" kf q acc] by auto
    from fold_omap_keeps[where G=G and kf=kf and k="kf p", OF this] show ?thesis by simp
  next
    case False
    then have "p \<in> set ps" using Cons.prems by simp
    from Cons.IH[OF this] show ?thesis by simp
  qed
qed

lemma getProposalsForSuperblock_fst:
  "fst (getProposalsForSuperblock env st h) = getProposals_superblock st h"
proof -
  have "filter (\<lambda>p. p_superblock p = h) (getProposals_superblock st h) = getProposals_superblock st h"
    by (rule filter_True) (auto simp: getProposals_superblock_def)
  then show ?thesis by (simp add: getProposalsForSuperblock_def Let_def)
qed

lemma results_from_store:
  "e \<in> set (getSuperblockResults env st h params) \<Longrightarrow> fst e \<in> set (getProposals_superblock st h)"
proof -
  assume a: "e \<in> set (getSuperblockResults env st h params)"
  let ?vs = "snd (getProposalsForSuperblock env st h)"
  let ?ps = "getProposals_superblock st h"
  let ?G = "\<lambda>k. getTally env k ?vs params"
  let ?r = "fold (\<lambda>p r. omap_assign (Proposal_getHash env) p (?G (Proposal_getHash env p)) r) ?ps []"
  have "e \<in> set ?r" using a
    by (auto simp add: getSuperblockResults_def Let_def getProposalsForSuperblock_fst split: if_splits)
  then show ?thesis
    using fold_omap_entries[where acc="[]" and ps="?ps" and S="set ?ps" and e=e and G="?G" and kf="Proposal_getHash env"]
    by auto
qed

lemma payees_loop_nonempty: "r \<noteq> [] \<Longrightarrow> payees_loop env props tot r \<noteq> []"
  by (induction props arbitrary: tot r) auto

subsection \<open>Spending and unspending\<close>

lemma Vote_getHash_marker [simp]:
  "Vote_getHash env (v\<lparr>v_spentBlock := a, v_spentHash := b\<rparr>) = Vote_getHash env v"
  by (simp add: Vote_getHash_def Vote_hashBytes_def)

lemma spend_unspend_result:
  assumes d: "deref st ptr = Some v" and m: "map_of (votes st) (Vote_getHash env v) = Some v"
    and p: "umap_count (proposals st) (v_proposal v)"
    and h: "\<not> h > p_superblock (umap_index Proposal_default (proposals st) (v_proposal v))"
  shows "Option.bind (spendVote_ptr env st ptr h t) (\<lambda>s. unspendVote_ptr env s ptr h t)
         = Some ((assign st ptr (v\<lparr>v_spentBlock := 0, v_spentHash := uint256_null\<rparr>))
                  \<lparr>votes := AList.update (Vote_getHash env v)
                       (v\<lparr>v_spentBlock := 0, v_spentHash := uint256_null\<rparr>) (votes st)\<rparr>)"
proof -
  let ?k = "Vote_getHash env v"
  let ?c = "v\<lparr>v_spentBlock := 0, v_spentHash := uint256_null\<rparr>"
  let ?s1 = "(assign st ptr (Vote_spend v h t))\<lparr>votes := AList.update ?k (Vote_spend v h t) (votes st)\<rparr>"
  have s: "spendVote_ptr env st ptr h t = Some ?s1"
    using d m p h by (simp add: spendVote_ptr_def Let_def umap_index_def)
  have d1: "deref ?s1 ptr = Some (Vote_spend v h t)"
    by (simp add: deref_assign)
  have c1: "umap_count (votes ?s1) ?k"
    by (simp add: umap_count_def AList.update_conv')
  have i1: "umap_index Vote_default (votes ?s1) ?k = Vote_spend v h t"
    by (simp add: umap_index_def AList.update_conv')
  have u: "fst (Vote_unspend (Vote_spend v h t) h t) = ?c"
    by (simp add: Vote_unspend_def Vote_spend_def)
  have "unspendVote_ptr env ?s1 ptr h t = Some ((assign st ptr ?c)\<lparr>votes := AList.update ?k ?c (votes st)\<rparr>)"
    using p h d1 c1 i1 u
    by (simp add: unspendVote_ptr_def Let_def assign_votes_update assign_assign AList.update_last)
  with s show ?thesis by simp
qed

lemma deref_store_of_hd:
  "deref (store_of (v # vs)) (200, Vote_getHash toy_env v) = Some v"
  by (simp add: deref_def store_of_def)

lemma votes_store_of_hd:
  "map_of (votes (store_of (v # vs))) (Vote_getHash toy_env v) = Some v"
  by (simp add: store_of_def)

lemma marker_ne: "vote_spent \<noteq> vote_spent\<lparr>v_spentBlock := 0, v_spentHash := uint256_null\<rparr>"
proof
  assume "vote_spent = vote_spent\<lparr>v_spentBlock := 0, v_spentHash := uint256_null\<rparr>"
  then have "v_spentBlock vote_spent = v_spentBlock (vote_spent\<lparr>v_spentBlock := 0, v_spentHash := uint256_null\<rparr>)"
    by simp
  then show False by (simp add: vote_spent_def)
qed

subsection \<open>Evaluation of the scenarios\<close>

lemma replicate_numeral_Cons: "replicate (numeral k) x = x # replicate (pred_numeral k) x"
  by (simp add: numeral_eq_Suc)

lemma length_le_bytes: "length (le_bytes k x) = k"
  by (induction k arbitrary: x) auto

lemma le_bytes_2: "le_bytes 2 x = [of_nat (x mod 256), of_nat (x div 256 mod 256)]"
proof -
  have "(2::nat) = Suc (Suc 0)" by simp
  then show ?thesis by (simp only: le_bytes.simps)
qed

lemma le_bytes_4:
  "le_bytes 4 x = [of_nat (x mod 256), of_nat (x div 256 mod 256),
     of_nat (x div 256 div 256 mod 256), of_nat (x div 256 div 256 div 256 mod 256)]"
proof -
  have "(4::nat) = Suc (Suc (Suc (Suc 0)))" by simp
  then show ?thesis by (simp only: le_bytes.simps)
qed

lemma le_bytes_8:
  "le_bytes 8 x = [of_nat (x mod 256), of_nat (x div 256 mod 256),
     of_nat (x div 256 div 256 mod 256), of_nat (x div 256 div 256 div 256 mod 256)]
     @ le_bytes 4 (x div 256 div 256 div 256 div 256)"
proof -
  have "(8::nat) = Suc (Suc (Suc (Suc 4)))" by simp
  then show ?thesis by (simp only: le_bytes.simps append.simps)
qed

lemma fold_plus_sum_list: "fold (+) bs (a::byte) = a + sum_list bs"
  by (induction bs arbitrary: a) (auto simp: add.assoc)

lemma toy_hash256_sum: "hash256 toy_env bs = sum_list bs # replicate 31 0"
  by (simp add: toy_env_def toy_hash256_def fold_plus_sum_list)

lemma hash_P_alpha: "Proposal_getHash toy_env P_alpha = 216 # replicate 31 0"
  by (simp add: Proposal_getHash_def toy_hash256_sum Proposal_hashBytes_def P_alpha_def
      ser_uint8_def ser_string_def ser_int32_def ser_int64_def WriteCompactSize_def
      le_bytes_4 le_bytes_8)

lemma hash_mk_vote: "Vote_getHash toy_env (mk_vote k i a) = (219 + 32 * i) # replicate 31 0"
  by (simp add: Vote_getHash_def Vote_hashBytes_def mk_vote_def hash_P_alpha ser_uint8_def
      ser_COutPoint_def ser_uint32_def le_bytes_4 toy_hash256_sum sum_list_replicate)

lemma hash_votes:
  "Vote_getHash toy_env vote_yes = 251 # replicate 31 0"
  "Vote_getHash toy_env vote_no = 27 # replicate 31 0"
  "Vote_getHash toy_env vote_spent = 59 # replicate 31 0"
  by (simp_all add: vote_yes_def vote_no_def vote_spent_def hash_mk_vote YES_def NO_def)

lemma vote_fields:
  "v_proposal (mk_vote k i a) = Proposal_getHash toy_env P_alpha"
  "op_hash (v_outpoint (mk_vote k i a)) = replicate 32 (i + 100)"
  "pubkeyID toy_env (v_pubkey (mk_vote k i a)) = replicate 20 i"
  "v_vote (mk_vote k i a) = k" "v_amount (mk_vote k i a) = a"
  by (simp_all add: mk_vote_def toy_env_def)

lemma prep3:
  "fold (tally_prep toy_env) [vote_yes, vote_yes, vote_no] ([], [])
     = ([(replicate 32 101, [vote_yes]), (replicate 32 102, [vote_no])],
        [(replicate 20 1, [vote_yes]), (replicate 20 2, [vote_no])])"
  by (simp add: tally_prep_def Let_def vote_yes_def vote_no_def vote_fields umap_index_def
      oset_insert_def oset_count_def hash_mk_vote replicate_numeral_Cons YES_def NO_def)

lemma filter3:
  "filter (\<lambda>vote. \<not> (Proposal_getHash toy_env P_alpha \<noteq> v_proposal vote)) [vote_yes, vote_yes, vote_no]
     = [vote_yes, vote_yes, vote_no]"
  by (simp add: vote_yes_def vote_no_def vote_fields)

lemma groups3:
  "tally_groups toy_env (Proposal_getHash toy_env P_alpha) [vote_yes, vote_yes, vote_no]
     = [[vote_yes], [vote_no]]"
  unfolding tally_groups_def Let_def filter3 prep3
  by (simp add: tally_groups_step_def tally_allUnique_def Let_def oset_insert_range_def
      oset_insert_def oset_count_def umap_index_def vote_yes_def vote_no_def vote_fields
      hash_mk_vote replicate_numeral_Cons YES_def NO_def)

lemma userTally_yes:
  "userTally toy_params [vote_yes]
     = \<lparr>t_cyes = 600000000, t_cno = 0, t_cabstain = 0, t_yes = 6, t_no = 0, t_abstain = 0\<rparr>"
  by (simp add: userTally_def Let_def tally_add_def vote_yes_def vote_fields Tally_default_def
      toy_params_def static_cast_int_def signed_divide_int_def YES_def NO_def ABSTAIN_def)

lemma userTally_no:
  "userTally toy_params [vote_no]
     = \<lparr>t_cyes = 0, t_cno = 400000000, t_cabstain = 0, t_yes = 0, t_no = 4, t_abstain = 0\<rparr>"
  by (simp add: userTally_def Let_def tally_add_def vote_no_def vote_fields Tally_default_def
      toy_params_def static_cast_int_def signed_divide_int_def YES_def NO_def ABSTAIN_def)

lemma getTally3:
  "getTally toy_env (Proposal_getHash toy_env P_alpha) [vote_yes, vote_yes, vote_no] toy_params
     = \<lparr>t_cyes = 600000000, t_cno = 400000000, t_cabstain = 0, t_yes = 6, t_no = 4, t_abstain = 0\<rparr>"
  unfolding getTally_groups groups3
  by (simp add: userTally_yes userTally_no tally_sum_def Tally_default_def)

lemma prep2:
  "fold (tally_prep toy_env) [vote_yes, vote_no] ([], [])
     = ([(replicate 32 101, [vote_yes]), (replicate 32 102, [vote_no])],
        [(replicate 20 1, [vote_yes]), (replicate 20 2, [vote_no])])"
  by (simp add: tally_prep_def Let_def vote_yes_def vote_no_def vote_fields umap_index_def
      oset_insert_def oset_count_def hash_mk_vote replicate_numeral_Cons YES_def NO_def)

lemma filter2:
  "filter (\<lambda>vote. \<not> (Proposal_getHash toy_env P_alpha \<noteq> v_proposal vote)) [vote_yes, vote_no]
     = [vote_yes, vote_no]"
  by (simp add: vote_yes_def vote_no_def vote_fields)

lemma groups2:
  "tally_groups toy_env (Proposal_getHash toy_env P_alpha) [vote_yes, vote_no]
     = [[vote_yes], [vote_no]]"
  unfolding tally_groups_def Let_def filter2 prep2
  by (simp add: tally_groups_step_def tally_allUnique_def Let_def oset_insert_range_def
      oset_insert_def oset_count_def umap_index_def vote_yes_def vote_no_def vote_fields
      hash_mk_vote replicate_numeral_Cons YES_def NO_def)

lemma getTally2:
  "getTally toy_env (Proposal_getHash toy_env P_alpha) [vote_yes, vote_no] toy_params
     = \<lparr>t_cyes = 600000000, t_cno = 400000000, t_cabstain = 0, t_yes = 6, t_no = 4, t_abstain = 0\<rparr>"
  unfolding getTally_groups groups2
  by (simp add: userTally_yes userTally_no tally_sum_def Tally_default_def)

lemma getTally0: "getTally env p [] params = Tally_default"
  by (simp add: getTally_def)

lemma forSuperblock2:
  "getProposalsForSuperblock toy_env (store_of [vote_yes, vote_no]) 200 = ([P_alpha], [vote_yes, vote_no])"
  by (simp add: getProposalsForSuperblock_def getProposals_superblock_def getVotes_superblock_def
      store_of_def umap_count_def umap_index_def Let_def P_alpha_def Vote_spent_def vote_yes_def
      vote_no_def mk_vote_def)

lemma forSuperblock0:
  "getProposalsForSuperblock toy_env (store_of []) 200 = ([P_alpha], [])"
  by (simp add: getProposalsForSuperblock_def getProposals_superblock_def getVotes_superblock_def
      store_of_def umap_count_def umap_index_def Let_def P_alpha_def)

lemma toy_isSuperblock: "isSuperblock 200 toy_params"
  by (simp add: isSuperblock_def toy_params_def signed_modulo_int_def)

lemma store_keyed: "proposals_keyed toy_env (store_of vs)"
  by (simp add: proposals_keyed_def umap_wf_def store_of_def)

lemma uniqueVotes2:
  "static_cast_int (uniqueAmount_loop [vote_yes, vote_no] [] 0 sdiv voteBalance toy_params) = 10"
  by (simp add: vote_yes_def vote_no_def mk_vote_def toy_params_def static_cast_int_def
      signed_divide_int_def)

lemma results0: "getSuperblockResults toy_env (store_of []) 200 toy_params = []"
  using toy_isSuperblock
  by (simp add: getSuperblockResults_def Let_def forSuperblock0 getTally0 results_erased_def
      Tally_default_def)

lemma store_two_wf: "Governance_wf (store_of [vote_yes, vote_spent])"
  by (simp add: Governance_wf_def umap_wf_def store_of_def hash_votes)

lemma store_two_ptrs:
  "getMutableSBVotes (store_of [vote_yes, vote_spent]) (Proposal_getHash toy_env P_alpha)
     = [(200, Vote_getHash toy_env vote_yes)]"
  by (simp add: getMutableSBVotes_def store_of_def umap_count_def umap_index_def P_alpha_def
      Vote_spent_def vote_yes_def vote_spent_def mk_vote_def)

lemma passes_6_4:
  "tally_passes \<lparr>t_cyes = 600000000, t_cno = 400000000, t_cabstain = 0, t_yes = 6, t_no = 4,
                  t_abstain = 0\<rparr> 10"
  by (simp add: tally_passes_int)

subsection \<open>Extraction from outputs\<close>

lemma ebind_Inr [simp]: "ebind (Inr x) f = f x"
  by (simp add: ebind_def)

lemma ebind_Inl [simp]: "ebind (Inl e) f = Inl e"
  by (simp add: ebind_def)

lemma read_uint8_Cons [simp]: "read_uint8 (b # r) = Inr (b, r)"
  by (simp add: read_uint8_def)

lemma read_uint8_Nil [simp]: "read_uint8 [] = Inl EndOfData"
  by (simp add: read_uint8_def)

lemma NetworkObject_two [simp]: "NetworkObject_Unserialize (v # t # rest) = Inr (v, t)"
  by (simp add: NetworkObject_Unserialize_def)

lemma NetworkObject_one [simp]: "NetworkObject_Unserialize [b] = Inl EndOfData"
  by (simp add: NetworkObject_Unserialize_def)

lemma PROPOSAL_VOTE [simp]: "PROPOSAL \<noteq> VOTE" "VOTE \<noteq> PROPOSAL"
  by (simp_all add: PROPOSAL_def VOTE_def)

lemma ebind_InrE:
  assumes "ebind m f = Inr y"
  obtains x where "m = Inr x" "f x = Inr y"
  using assms by (cases m) (simp_all add: ebind_def)

lemma read_bytes_append:
  "read_bytes n s = Inr vr \<Longrightarrow> read_bytes n (s @ ex) = Inr (fst vr, snd vr @ ex)"
  by (auto simp: read_bytes_def split: if_splits)

lemma read_uint8_append:
  "read_uint8 s = Inr vr \<Longrightarrow> read_uint8 (s @ ex) = Inr (fst vr, snd vr @ ex)"
  by (cases s) (auto simp: read_uint8_def)

lemma read_uint_append:
  "read_uint k s = Inr vr \<Longrightarrow> read_uint k (s @ ex) = Inr (fst vr, snd vr @ ex)"
  unfolding read_uint_def
  apply (erule ebind_InrE)
  apply (drule read_bytes_append[where ex=ex])
  apply (auto simp add: case_prod_beta)
  done

lemma read_uint32_append:
  "read_uint32 s = Inr vr \<Longrightarrow> read_uint32 (s @ ex) = Inr (fst vr, snd vr @ ex)"
  unfolding read_uint32_def
  apply (erule ebind_InrE)
  apply (drule read_uint_append[where ex=ex])
  apply (auto simp add: case_prod_beta)
  done

lemma read_int32_append:
  "read_int32 s = Inr vr \<Longrightarrow> read_int32 (s @ ex) = Inr (fst vr, snd vr @ ex)"
  unfolding read_int32_def
  apply (erule ebind_InrE)
  apply (drule read_uint_append[where ex=ex])
  apply (auto simp add: case_prod_beta)
  done

lemma read_int64_append:
  "read_int64 s = Inr vr \<Longrightarrow> read_int64 (s @ ex) = Inr (fst vr, snd vr @ ex)"
  unfolding read_int64_def
  apply (erule ebind_InrE)
  apply (drule read_uint_append[where ex=ex])
  apply (auto simp add: case_prod_beta)
  done

lemma ReadCompactSize_append:
  "ReadCompactSize s = Inr vr \<Longrightarrow> ReadCompactSize (s @ ex) = Inr (fst vr, snd vr @ ex)"
  unfolding ReadCompactSize_def
  apply (erule ebind_InrE)
  apply (drule read_uint8_append[where ex=ex])
  apply (simp add: case_prod_beta)
  apply (erule ebind_InrE)
  apply (simp split: if_splits)
     apply (auto simp add: case_prod_beta elim!: ebind_InrE dest: read_uint_append[where ex=ex] split: if_splits)
  done

lemma read_vector_append:
  "read_vector s = Inr vr \<Longrightarrow> read_vector (s @ ex) = Inr (fst vr, snd vr @ ex)"
  unfolding read_vector_def
  apply (erule ebind_InrE)
  apply (drule ReadCompactSize_append[where ex=ex])
  apply (simp add: case_prod_beta)
  apply (drule read_bytes_append[where ex=ex])
  apply simp
  done

lemma read_string_append:
  "read_string s = Inr vr \<Longrightarrow> read_string (s @ ex) = Inr (fst vr, snd vr @ ex)"
  unfolding read_string_def
  apply (erule ebind_InrE)
  apply (drule read_vector_append[where ex=ex])
  apply (auto simp add: case_prod_beta)
  done

lemma read_COutPoint_append:
  "read_COutPoint s = Inr vr \<Longrightarrow> read_COutPoint (s @ ex) = Inr (fst vr, snd vr @ ex)"
  unfolding read_COutPoint_def
  apply (erule ebind_InrE)
  apply (drule read_bytes_append[where ex=ex])
  apply (simp add: case_prod_beta)
  apply (erule ebind_InrE)
  apply (drule read_uint32_append[where ex=ex])
  apply (auto simp add: case_prod_beta)
  done

lemma Proposal_Unserialize_append:
  "Proposal_Unserialize p s = Inr q \<Longrightarrow> Proposal_Unserialize p (s @ ex) = Inr q"
  unfolding Proposal_Unserialize_def
  apply (erule ebind_InrE, drule read_uint8_append[where ex=ex], simp add: case_prod_beta,
         thin_tac "read_uint8 (_ @ ex) = _")
  apply (erule ebind_InrE, drule read_uint8_append[where ex=ex], simp add: case_prod_beta,
         thin_tac "read_uint8 (_ @ ex) = _")
  apply (erule ebind_InrE, drule read_int32_append[where ex=ex], simp add: case_prod_beta,
         thin_tac "read_int32 (_ @ ex) = _")
  apply (erule ebind_InrE, drule read_int64_append[where ex=ex], simp add: case_prod_beta,
         thin_tac "read_int64 (_ @ ex) = _")
  apply (erule ebind_InrE, drule read_string_append[where ex=ex], simp add: case_prod_beta,
         thin_tac "read_string (_ @ ex) = _")
  apply (erule ebind_InrE, drule read_string_append[where ex=ex], simp add: case_prod_beta,
         thin_tac "read_string (_ @ ex) = _")
  apply (erule ebind_InrE, drule read_string_append[where ex=ex], simp add: case_prod_beta,
         thin_tac "read_string (_ @ ex) = _")
  apply (erule ebind_InrE, drule read_string_append[where ex=ex], simp add: case_prod_beta)
  done

lemma Vote_Unserialize_append:
  "Vote_Unserialize env v s = Inr q \<Longrightarrow> Vote_Unserialize env v (s @ ex) = Inr q"
  unfolding Vote_Unserialize_def
  apply (erule ebind_InrE, drule read_uint8_append[where ex=ex], simp add: case_prod_beta,
         thin_tac "read_uint8 (_ @ ex) = _")
  apply (erule ebind_InrE, drule read_uint8_append[where ex=ex], simp add: case_prod_beta,
         thin_tac "read_uint8 (_ @ ex) = _")
  apply (erule ebind_InrE, drule read_bytes_append[where ex=ex], simp add: case_prod_beta,
         thin_tac "read_bytes _ (_ @ ex) = _")
  apply (erule ebind_InrE, drule read_uint8_append[where ex=ex], simp add: case_prod_beta,
         thin_tac "read_uint8 (_ @ ex) = _")
  apply (erule ebind_InrE, drule read_COutPoint_append[where ex=ex], simp add: case_prod_beta,
         thin_tac "read_COutPoint (_ @ ex) = _")
  apply (erule ebind_InrE, drule read_bytes_append[where ex=ex], simp add: case_prod_beta,
         thin_tac "read_bytes _ (_ @ ex) = _")
  apply (erule ebind_InrE, drule read_vector_append[where ex=ex], simp add: case_prod_beta)
  done

lemma dataFromOut_no_data:
  assumes "scriptPubKey out = OP_RETURN # bs"
    and "\<not> fst (script_walk (scriptPubKey out) False []) \<or> snd (script_walk (scriptPubKey out) False []) = []"
  shows "dataFromOut env st params block tx bi cp n out acc = Inr acc"
  using assms by (auto simp add: dataFromOut_def Let_def)

lemma dataFromOut_header:
  assumes "scriptPubKey out = OP_RETURN # bs"
    and "fst (script_walk (scriptPubKey out) False [])"
    and "snd (script_walk (scriptPubKey out) False []) = v # t # rest"
    and "v \<noteq> NETWORK_VERSION \<or> (t \<noteq> PROPOSAL \<and> t \<noteq> VOTE)"
  shows "dataFromOut env st params block tx bi cp n out acc = Inr acc"
  using assms by (auto simp add: dataFromOut_def Let_def)

lemma dataFromOut_short_header:
  assumes "scriptPubKey out = OP_RETURN # bs"
    and "fst (script_walk (scriptPubKey out) False [])"
    and "snd (script_walk (scriptPubKey out) False []) = [b]"
  shows "dataFromOut env st params block tx bi cp n out acc = Inl EndOfData"
  using assms by (simp add: dataFromOut_def Let_def)

lemma dataFromOut_proposal_body:
  assumes "scriptPubKey out = OP_RETURN # bs"
    and "fst (script_walk (scriptPubKey out) False [])"
    and "snd (script_walk (scriptPubKey out) False []) = NETWORK_VERSION # PROPOSAL # rest"
    and "Proposal_Unserialize (Proposal_default\<lparr>p_blockNumber := height_of bi\<rparr>)
           (NETWORK_VERSION # PROPOSAL # rest) = Inl e"
  shows "dataFromOut env st params block tx bi cp n out acc = Inl e"
  using assms by (simp add: dataFromOut_def Let_def)

lemma dataFromOut_vote_body:
  assumes "scriptPubKey out = OP_RETURN # bs"
    and "fst (script_walk (scriptPubKey out) False [])"
    and "snd (script_walk (scriptPubKey out) False []) = NETWORK_VERSION # VOTE # rest"
    and "Vote_Unserialize env
           (Vote_default\<lparr>v_outpoint := \<lparr>op_hash = tx_hash tx, op_n = of_nat n\<rparr>,
              v_time := nTime block, v_blockNumber := height_of bi\<rparr>)
           (NETWORK_VERSION # VOTE # rest) = Inl e"
  shows "dataFromOut env st params block tx bi cp n out acc = Inl e"
  using assms by (simp add: dataFromOut_def Let_def)

lemma dataFromOut_proposal_extra:
  assumes "scriptPubKey out = OP_RETURN # bs"
    and "fst (script_walk (scriptPubKey out) False [])"
    and "snd (script_walk (scriptPubKey out) False []) = (NETWORK_VERSION # PROPOSAL # rest) @ ex"
    and "Proposal_Unserialize (Proposal_default\<lparr>p_blockNumber := height_of bi\<rparr>)
           (NETWORK_VERSION # PROPOSAL # rest) = Inr q"
  shows "dataFromOut env st params block tx bi cp n out acc
         = (if Proposal_isValid env params q
               \<and> (case bi of None \<Rightarrow> True | Some h \<Rightarrow> outsideProposalCutoff q h params)
            then Inr (oset_insert (Proposal_getHash env) q (fst acc), fst (snd acc), snd (snd acc))
            else Inr acc)"
  using assms(1,2,3) Proposal_Unserialize_append[OF assms(4), of ex]
  by (simp add: dataFromOut_def Let_def)

lemma walk_short_push: "script_walk [OP_RETURN, 5, 1] False [] = (False, [])"
  by (simp add: script_walk.simps GetOp_def Let_def OP_RETURN_def OP_PUSHDATA1_def
      OP_PUSHDATA2_def OP_PUSHDATA4_def)

lemma walk_bad_version: "script_walk [OP_RETURN, 2, 2, 1] False [] = (True, [2, 1])"
  by (simp add: script_walk.simps GetOp_def Let_def OP_RETURN_def OP_PUSHDATA1_def
      OP_PUSHDATA2_def OP_PUSHDATA4_def)

lemma walk_short_header: "script_walk [OP_RETURN, 1, 1] False [] = (True, [1])"
  by (simp add: script_walk.simps GetOp_def Let_def OP_RETURN_def OP_PUSHDATA1_def
      OP_PUSHDATA2_def OP_PUSHDATA4_def)

lemma walk_short_body: "script_walk [OP_RETURN, 2, 1, 1] False [] = (True, [1, 1])"
  by (simp add: script_walk.simps GetOp_def Let_def OP_RETURN_def OP_PUSHDATA1_def
      OP_PUSHDATA2_def OP_PUSHDATA4_def)

lemma read_short_body: "Proposal_Unserialize p [NETWORK_VERSION, PROPOSAL] = Inl EndOfData"
  by (simp add: Proposal_Unserialize_def read_int32_def read_uint_def read_bytes_def)

lemma dataFromTxs_one:
  "dataFromTxs env st params block bi cp [tx] acc = dataFromTx env st params block bi cp tx acc"
  by (cases "dataFromTx env st params block bi cp tx acc") simp_all

lemma toy_not_coinbase: "\<not> IsCoinBase toy_env (tx_of outs)"
  by (simp add: toy_env_def tx_of_def COutPoint_null_def uint256_null_def replicate_numeral_Cons)

lemma dataFromBlock_block_of:
  "dataFromBlock toy_env st (block_of outs) [] [] params bi cp
     = ebind (dataFromOuts toy_env st params (block_of outs) (tx_of outs) bi cp 0 outs ([], [], []))
         (\<lambda>r. Inr (fst r, fst (snd r)))"
proof -
  have v: "vtx (block_of outs) = [tx_of outs]" by (simp add: block_of_def)
  have o: "vout (tx_of outs) = outs" by (simp add: tx_of_def)
  show ?thesis
    unfolding dataFromBlock_def v dataFromTxs_one dataFromTx_def o
    using toy_not_coinbase by simp
qed

subsection \<open>Undoing a block\<close>

lemma unspendVote_ptr_other:
  assumes d: "deref st ptr = Some v" and m: "map_of (votes st) (Vote_getHash env v) = Some v"
    and u: "\<not> (v_spentBlock v = h \<and> v_spentHash v = t)"
  shows "unspendVote_ptr env st ptr h t = Some st"
  using d m u
  by (simp add: unspendVote_ptr_def Let_def Vote_unspend_other assign_deref umap_index_def
        AList.update_triv)

lemma getMutableSBVotes_synced:
  assumes wf: "Governance_wf st" and sy: "votes_synced env st"
    and p: "ptr \<in> set (getMutableSBVotes st ph)"
  shows "\<exists>v. deref st ptr = Some v \<and> \<not> Vote_spent v
             \<and> map_of (votes st) (Vote_getHash env v) = Some v"
proof -
  from getMutableSBVotes_unspent[OF wf p] obtain v where
    v: "deref st ptr = Some v" "\<not> Vote_spent v" by blast
  from v(1) obtain vs where vs: "map_of (sbvotes st) (fst ptr) = Some vs" "map_of vs (snd ptr) = Some v"
    by (auto simp: deref_def split: option.splits)
  have "(fst ptr, vs) \<in> set (sbvotes st)" using vs(1) by (rule map_of_SomeD)
  moreover have "(snd ptr, v) \<in> set vs" using vs(2) by (rule map_of_SomeD)
  ultimately have "snd ptr = Vote_getHash env v \<and> map_of (votes st) (snd ptr) = Some v"
    using sy by (fastforce simp: votes_synced_def list_all_iff)
  then show ?thesis using v by auto
qed

lemma unspend_loop_unspent:
  assumes "0 < h"
    and "\<forall>ptr\<in>set ptrs. \<exists>v. deref st ptr = Some v \<and> \<not> Vote_spent v
             \<and> map_of (votes st) (Vote_getHash env v) = Some v"
  shows "unspend_loop env prevouts h ptrs st = Inr st"
  using assms(2)
proof (induction ptrs)
  case Nil
  then show ?case by simp
next
  case (Cons ptr ptrs)
  then obtain v where v: "deref st ptr = Some v" "\<not> Vote_spent v"
      "map_of (votes st) (Vote_getHash env v) = Some v" by auto
  have "v_spentBlock v \<noteq> h" using v(2) assms(1) by (simp add: Vote_spent_def)
  then have "unspendVote_ptr env st ptr h t = Some st" for t
    using unspendVote_ptr_other[OF v(1) v(3), of h t] by simp
  then show ?case using v(1) Cons by simp
qed

lemma store_spent_wf: "Governance_wf (store_of [vote_spent])"
  by (simp add: Governance_wf_def umap_wf_def store_of_def)

lemma store_spent_synced: "votes_synced toy_env (store_of [vote_spent])"
  by (simp add: votes_synced_def store_of_def)

lemma spend_block_data:
  "dataFromBlock toy_env st spend_block [] [] params bi cp = Inr ([], [])"
  by (simp add: dataFromBlock_def spend_block_def dataFromTx_def dataFromOut_def toy_env_def
      OP_RETURN_def COutPoint_null_def)

subsection \<open>Votes of one block with the same vote-id\<close>

lemma votesRet_add_insert:
  "votesRet_add env vote votesRet = oset_insert (Vote_getHash env) vote votesRet"
  by (simp add: votesRet_add_def oset_insert_def split: option.splits)

lemma oset_insert_keeps: "x \<in> set s \<Longrightarrow> x \<in> set (oset_insert kf v s)"
  by (simp add: oset_insert_def set_insort_key)

lemma dataFromOut_votes:
  assumes "dataFromOut env st params block tx bi cp n out acc = Inr r"
  shows "fst (snd r) = fst (snd acc)
         \<or> (\<exists>vote. fst (snd r) = oset_insert (Vote_getHash env) vote (fst (snd acc)))"
  using assms unfolding dataFromOut_def Let_def votesRet_add_insert
  by (auto split: list.splits if_splits elim!: ebind_InrE; blast)

lemma dataFromOut_keeps:
  assumes "dataFromOut env st params block tx bi cp n out acc = Inr r"
    and "x \<in> set (fst (snd acc))"
  shows "x \<in> set (fst (snd r))"
  using dataFromOut_votes[OF assms(1)] assms(2) by (auto simp: oset_insert_keeps)

lemma dataFromOut_distinct:
  assumes "dataFromOut env st params block tx bi cp n out acc = Inr r"
    and "distinct (map (Vote_getHash env) (fst (snd acc)))"
  shows "distinct (map (Vote_getHash env) (fst (snd r)))"
  using dataFromOut_votes[OF assms(1)] assms(2) by (auto simp: distinct_oset_insert)

lemma dataFromOuts_keeps:
  assumes "dataFromOuts env st params block tx bi cp n outs acc = Inr r"
    and "x \<in> set (fst (snd acc))"
  shows "x \<in> set (fst (snd r))"
  using assms
proof (induction outs arbitrary: n acc)
  case Nil
  then show ?case by simp
next
  case (Cons out outs)
  from Cons.prems(1) obtain a where
    a: "dataFromOut env st params block tx bi cp n out acc = Inr a"
    and b: "dataFromOuts env st params block tx bi cp (Suc n) outs a = Inr r"
    by (auto elim: ebind_InrE)
  show ?case by (rule Cons.IH[OF b dataFromOut_keeps[OF a Cons.prems(2)]])
qed

lemma dataFromOuts_distinct:
  assumes "dataFromOuts env st params block tx bi cp n outs acc = Inr r"
    and "distinct (map (Vote_getHash env) (fst (snd acc)))"
  shows "distinct (map (Vote_getHash env) (fst (snd r)))"
  using assms
proof (induction outs arbitrary: n acc)
  case Nil
  then show ?case by simp
next
  case (Cons out outs)
  from Cons.prems(1) obtain a where
    a: "dataFromOut env st params block tx bi cp n out acc = Inr a"
    and b: "dataFromOuts env st params block tx bi cp (Suc n) outs a = Inr r"
    by (auto elim: ebind_InrE)
  show ?case by (rule Cons.IH[OF b dataFromOut_distinct[OF a Cons.prems(2)]])
qed

lemma dataFromTx_keeps:
  assumes "dataFromTx env st params block bi cp tx acc = Inr r"
    and "x \<in> set (snd acc)"
  shows "x \<in> set (snd r)"
proof (cases "IsCoinBase env tx")
  case True
  with assms show ?thesis by (simp add: dataFromTx_def)
next
  case False
  with assms(1) obtain a where
    a: "dataFromOuts env st params block tx bi cp 0 (vout tx) (fst acc, snd acc, []) = Inr a"
    and r: "r = (fst a, fst (snd a))"
    by (auto simp: dataFromTx_def elim!: ebind_InrE)
  from dataFromOuts_keeps[OF a] assms(2) show ?thesis by (simp add: r)
qed

lemma dataFromTx_distinct:
  assumes "dataFromTx env st params block bi cp tx acc = Inr r"
    and "distinct (map (Vote_getHash env) (snd acc))"
  shows "distinct (map (Vote_getHash env) (snd r))"
proof (cases "IsCoinBase env tx")
  case True
  with assms show ?thesis by (simp add: dataFromTx_def)
next
  case False
  with assms(1) obtain a where
    a: "dataFromOuts env st params block tx bi cp 0 (vout tx) (fst acc, snd acc, []) = Inr a"
    and r: "r = (fst a, fst (snd a))"
    by (auto simp: dataFromTx_def elim!: ebind_InrE)
  from dataFromOuts_distinct[OF a] assms(2) show ?thesis by (simp add: r)
qed

lemma dataFromTxs_keeps:
  assumes "dataFromTxs env st params block bi cp txs acc = Inr r"
    and "x \<in> set (snd acc)"
  shows "x \<in> set (snd r)"
  using assms
proof (induction txs arbitrary: acc)
  case Nil
  then show ?case by simp
next
  case (Cons tx txs)
  from Cons.prems(1) obtain a where
    a: "dataFromTx env st params block bi cp tx acc = Inr a"
    and b: "dataFromTxs env st params block bi cp txs a = Inr r"
    by (auto elim: ebind_InrE)
  show ?case by (rule Cons.IH[OF b dataFromTx_keeps[OF a Cons.prems(2)]])
qed

lemma dataFromTxs_distinct:
  assumes "dataFromTxs env st params block bi cp txs acc = Inr r"
    and "distinct (map (Vote_getHash env) (snd acc))"
  shows "distinct (map (Vote_getHash env) (snd r))"
  using assms
proof (induction txs arbitrary: acc)
  case Nil
  then show ?case by simp
next
  case (Cons tx txs)
  from Cons.prems(1) obtain a where
    a: "dataFromTx env st params block bi cp tx acc = Inr a"
    and b: "dataFromTxs env st params block bi cp txs a = Inr r"
    by (auto elim: ebind_InrE)
  show ?case by (rule Cons.IH[OF b dataFromTx_distinct[OF a Cons.prems(2)]])
qed

lemma dataFromTxs_append:
  "dataFromTxs env st params block bi cp (xs @ ys) acc
     = ebind (dataFromTxs env st params block bi cp xs acc)
         (dataFromTxs env st params block bi cp ys)"
proof (induction xs arbitrary: acc)
  case Nil
  then show ?case by simp
next
  case (Cons tx xs)
  then show ?case
    by (cases "dataFromTx env st params block bi cp tx acc") simp_all
qed

lemma dataFromOut_nTime:
  "nTime b1 = nTime b2 \<Longrightarrow>
   dataFromOut env st params b1 tx bi cp n out acc = dataFromOut env st params b2 tx bi cp n out acc"
  unfolding dataFromOut_def by (erule subst, rule refl)

lemma dataFromOuts_nTime:
  "nTime b1 = nTime b2 \<Longrightarrow>
   dataFromOuts env st params b1 tx bi cp n outs acc = dataFromOuts env st params b2 tx bi cp n outs acc"
proof (induction outs arbitrary: n acc)
  case Nil
  then show ?case by simp
next
  case (Cons out outs)
  show ?case
    using Cons.IH[OF Cons.prems] dataFromOut_nTime[OF Cons.prems, of env st params tx bi cp n out acc]
    by (cases "dataFromOut env st params b2 tx bi cp n out acc") simp_all
qed

lemma dataFromTx_nTime:
  "nTime b1 = nTime b2 \<Longrightarrow>
   dataFromTx env st params b1 bi cp tx acc = dataFromTx env st params b2 bi cp tx acc"
  by (simp add: dataFromTx_def dataFromOuts_nTime[of b1 b2])

lemma dataFromTxs_nTime:
  "nTime b1 = nTime b2 \<Longrightarrow>
   dataFromTxs env st params b1 bi cp txs acc = dataFromTxs env st params b2 bi cp txs acc"
proof (induction txs arbitrary: acc)
  case Nil
  then show ?case by simp
next
  case (Cons tx txs)
  show ?case
    using Cons.IH[OF Cons.prems] dataFromTx_nTime[OF Cons.prems, of env st params bi cp tx acc]
    by (cases "dataFromTx env st params b2 bi cp tx acc") simp_all
qed

lemma walk_pushdata1:
  assumes "d \<noteq> []" and "length d < 256"
  shows "script_walk (OP_RETURN # 76 # of_nat (length d) # d) False [] = (True, d)"
proof -
  have g1: "GetOp (OP_RETURN # 76 # of_nat (length d) # d)
            = Some (106, [], 76 # of_nat (length d) # d)"
    by (simp add: GetOp_def OP_RETURN_def OP_PUSHDATA4_def)
  have u: "unat (of_nat (length d) :: byte) = length d"
    using assms(2) by (simp add: unsigned_of_nat take_bit_eq_mod)
  have g2: "GetOp (76 # of_nat (length d) # d) = Some (76, d, [])"
    by (simp add: GetOp_def OP_PUSHDATA4_def OP_PUSHDATA1_def u)
  have w2: "script_walk (76 # of_nat (length d) # d) False [] = (True, d)"
    using assms(1) by (subst script_walk.simps) (simp add: g2 OP_PUSHDATA1_def)
  show ?thesis
    by (subst script_walk.simps)
       (simp add: g1 w2 OP_PUSHDATA1_def OP_PUSHDATA2_def OP_PUSHDATA4_def)
qed

lemma read_bytes_exact: "length a = n \<Longrightarrow> read_bytes n (a @ r) = Inr (a, r)"
  by (simp add: read_bytes_def)

lemma le_nat_le_bytes: "x < 256 ^ k \<Longrightarrow> le_nat (le_bytes k x) = x"
proof (induction k arbitrary: x)
  case 0
  then show ?case by simp
next
  case (Suc k)
  have "x div 256 < 256 ^ k"
    using Suc.prems by (simp add: less_mult_imp_div_less mult.commute)
  then have "le_nat (le_bytes k (x div 256)) = x div 256" by (rule Suc.IH)
  moreover have "unat (of_nat (x mod 256) :: byte) = x mod 256"
    by (simp add: unsigned_of_nat take_bit_eq_mod)
  ultimately show ?case by simp
qed

lemma read_uint32_ser: "read_uint32 (ser_uint32 w @ r) = Inr (w, r)"
proof -
  have "unat w < 256 ^ 4" using unsigned_less[of w] by simp
  then have "le_nat (le_bytes 4 (unat w)) = unat w" by (rule le_nat_le_bytes)
  then show ?thesis
    by (simp add: read_uint32_def read_uint_def ser_uint32_def read_bytes_exact length_le_bytes)
qed

lemma read_COutPoint_ser:
  "length (op_hash u) = 32 \<Longrightarrow> read_COutPoint (ser_COutPoint u @ r) = Inr (u, r)"
  by (simp add: read_COutPoint_def ser_COutPoint_def read_bytes_exact read_uint32_ser)

lemma read_vector_ser:
  assumes "length v < 253"
  shows "read_vector (ser_vector v @ r) = Inr (v, r)"
proof -
  have u: "unat (of_nat (length v) :: byte) = length v"
    using assms by (simp add: unsigned_of_nat take_bit_eq_mod)
  have l: "(of_nat (length v) :: byte) < 253"
    using assms u by (simp add: word_less_nat_alt)
  show ?thesis
    using assms
    by (simp add: read_vector_def ser_vector_def WriteCompactSize_def ReadCompactSize_def l u
        MAX_SIZE_def read_bytes_exact)
qed

lemma Vote_Unserialize_Serialize:
  assumes "length (v_proposal v) = 32" and "length (op_hash (v_utxo v)) = 32"
    and "length (v_vinhash v) = VINHASH_SIZE" and "length (v_signature v) < 253"
  shows "Vote_Unserialize env v0 (Vote_Serialize v)
         = Inr (loadKeyID env
                  (v0\<lparr>v_version := v_version v, v_type := v_type v, v_proposal := v_proposal v,
                      v_vote := v_vote v, v_utxo := v_utxo v, v_vinhash := v_vinhash v,
                      v_signature := v_signature v,
                      v_pubkey := recoverCompact env
                        (Vote_sigHash env
                           (v0\<lparr>v_version := v_version v, v_type := v_type v,
                               v_proposal := v_proposal v, v_vote := v_vote v,
                               v_utxo := v_utxo v, v_vinhash := v_vinhash v,
                               v_signature := v_signature v\<rparr>))
                        (v_signature v)\<rparr>))"
proof -
  have v: "read_vector (ser_vector (v_signature v)) = Inr (v_signature v, [])"
    using read_vector_ser[OF assms(4), of "[]"] by simp
  show ?thesis
    using assms(1,2,3)
    by (simp add: Vote_Unserialize_def Vote_Serialize_def ser_uint8_def read_bytes_exact
        read_COutPoint_ser v Let_def)
qed

lemma dataFromOut_vote:
  assumes "scriptPubKey out = OP_RETURN # bs"
    and "script_walk (scriptPubKey out) False [] = (True, NETWORK_VERSION # VOTE # rest)"
    and "Vote_Unserialize env
           (Vote_default\<lparr>v_outpoint := \<lparr>op_hash = tx_hash tx, op_n = of_nat n\<rparr>,
              v_time := nTime block, v_blockNumber := h\<rparr>)
           (NETWORK_VERSION # VOTE # rest) = Inr vote"
    and "cp \<longrightarrow> hasProposal_before st (v_proposal vote) h"
    and "Vote_isValid_vin env (map (\<lambda>i. makeVinHash env (prevout i)) (vin tx)) params vote"
    and "outsideVotingCutoff (getProposal st (v_proposal vote)) h params"
    and "length (vin tx) = 1"
  shows "dataFromOut env st params block tx (Some h) cp n out (ps, vs, [])
         = Inr (ps, votesRet_add env vote vs, map (\<lambda>i. makeVinHash env (prevout i)) (vin tx))"
proof -
  obtain i where i: "vin tx = [i]"
    using assms(7) by (cases "vin tx") auto
  have f: "fold (\<lambda>i s. oset_insert id (makeVinHash env (prevout i)) s) (vin tx) []
           = map (\<lambda>i. makeVinHash env (prevout i)) (vin tx)"
    by (simp add: i oset_insert_def oset_count_def)
  show ?thesis
    using assms(1-6)
    by (auto simp add: dataFromOut_def Let_def f height_of_def)
qed

lemma toy_vinhash:
  "makeVinHash toy_env \<lparr>op_hash = replicate 32 b, op_n = 1\<rparr> = (32 * b + 1) # replicate 11 0"
  by (simp add: makeVinHash_def toy_hash256_sum ser_COutPoint_def ser_uint32_def le_bytes_4
      sum_list_replicate VINHASH_SIZE_def replicate_numeral_Cons)

lemma cast_vote_lengths:
  "length (v_proposal (cast_vote k)) = 32" "length (op_hash (v_utxo (cast_vote k))) = 32"
  "length (v_vinhash (cast_vote k)) = VINHASH_SIZE" "length (v_signature (cast_vote k)) < 253"
  by (simp_all add: cast_vote_def hash_P_alpha toy_vinhash VINHASH_SIZE_def)

lemma cast_vote_wire:
  "Vote_Serialize (cast_vote k) = NETWORK_VERSION # VOTE # tl (tl (Vote_Serialize (cast_vote k)))"
  by (simp add: Vote_Serialize_def ser_uint8_def cast_vote_def NETWORK_VERSION_def VOTE_def)

lemma cast_vote_wire_length: "length (Vote_Serialize (cast_vote k)) = 104"
  by (simp add: Vote_Serialize_def ser_uint8_def cast_vote_lengths ser_COutPoint_def
      ser_uint32_def length_le_bytes ser_vector_def WriteCompactSize_def VINHASH_SIZE_def)
     (simp add: cast_vote_def)

lemma cast_vote_read:
  "Vote_Unserialize toy_env
     (Vote_default\<lparr>v_outpoint := \<lparr>op_hash = replicate 32 (70 + k), op_n = 0\<rparr>,
        v_time := 1000, v_blockNumber := 160\<rparr>)
     (Vote_Serialize (cast_vote k)) = Inr (cast_vote k)"
  unfolding Vote_Unserialize_Serialize[OF cast_vote_lengths]
  by (simp add: loadKeyID_def toy_env_def cast_vote_def Vote_default_def)

lemma cast_vote_hashes:
  "Vote_getHash toy_env (cast_vote k) = 251 # replicate 31 0"
  "Vote_sigHash toy_env (cast_vote k) = (156 + 33 * k) # replicate 31 0"
  by (simp_all add: Vote_getHash_def Vote_hashBytes_def Vote_sigHash_def Vote_sigHashBytes_def
      cast_vote_def hash_P_alpha ser_uint8_def ser_COutPoint_def ser_uint32_def le_bytes_4
      toy_hash256_sum sum_list_replicate toy_vinhash)

lemma cast_vote_valid:
  assumes "k = NO \<or> k = YES"
  shows "Vote_isValid_vin toy_env
           [makeVinHash toy_env \<lparr>op_hash = replicate 32 (5 + k), op_n = 1\<rparr>] toy_params
           (cast_vote k)"
  using assms
  by (auto simp add: Vote_isValid_vin_def Vote_isValid_def cast_vote_def isValidVoteType_def
      NETWORK_VERSION_def VOTE_def NO_def YES_def ABSTAIN_def toy_params_def toy_env_def
      replicate_numeral_Cons)

lemma cast_vote_proposal:
  "hasProposal_before (store_of vs) (v_proposal (cast_vote k)) 160"
  "outsideVotingCutoff (getProposal (store_of vs) (v_proposal (cast_vote k))) 160 toy_params"
  by (simp_all add: hasProposal_before_def outsideVotingCutoff_def getProposal_def store_of_def
      cast_vote_def umap_count_def umap_index_def P_alpha_def Proposal_isNull_def toy_params_def)

lemma dataFromTx_vote_tx:
  assumes "k = NO \<or> k = YES"
  shows "dataFromTx toy_env (store_of []) toy_params two_vote_block (Some 160) True (vote_tx k)
           (ps, vs)
         = Inr (ps, votesRet_add toy_env (cast_vote k) vs)"
proof -
  have nc: "\<not> IsCoinBase toy_env (vote_tx k)"
    by (simp add: toy_env_def vote_tx_def COutPoint_null_def)
  have s: "scriptPubKey (vote_out k)
           = OP_RETURN # 76 # of_nat (length (Vote_Serialize (cast_vote k)))
             # Vote_Serialize (cast_vote k)"
    by (simp add: vote_out_def)
  have ne: "Vote_Serialize (cast_vote k) \<noteq> []"
    using cast_vote_wire_length[of k] by auto
  have w: "script_walk (scriptPubKey (vote_out k)) False []
           = (True, NETWORK_VERSION # VOTE # tl (tl (Vote_Serialize (cast_vote k))))"
    unfolding s
    using walk_pushdata1[OF ne] cast_vote_wire[of k] by (simp add: cast_vote_wire_length)
  have r: "Vote_Unserialize toy_env
             (Vote_default\<lparr>v_outpoint := \<lparr>op_hash = tx_hash (vote_tx k), op_n = of_nat 0\<rparr>,
                v_time := nTime two_vote_block, v_blockNumber := 160\<rparr>)
             (NETWORK_VERSION # VOTE # tl (tl (Vote_Serialize (cast_vote k)))) = Inr (cast_vote k)"
    using cast_vote_read[of k] cast_vote_wire[of k]
    by (simp add: vote_tx_def two_vote_block_def)
  have v: "Vote_isValid_vin toy_env (map (\<lambda>i. makeVinHash toy_env (prevout i)) (vin (vote_tx k)))
             toy_params (cast_vote k)"
    using cast_vote_valid[OF assms] by (simp add: vote_tx_def)
  have o: "dataFromOut toy_env (store_of []) toy_params two_vote_block (vote_tx k) (Some 160) True
             0 (vote_out k) (ps, vs, [])
           = Inr (ps, votesRet_add toy_env (cast_vote k) vs,
                  map (\<lambda>i. makeVinHash toy_env (prevout i)) (vin (vote_tx k)))"
    by (rule dataFromOut_vote[OF s w r _ v]) (simp_all add: cast_vote_proposal, simp add: vote_tx_def)
  have vo: "vout (vote_tx k) = [vote_out k]" by (simp add: vote_tx_def)
  show ?thesis
    by (simp add: dataFromTx_def nc vo o)
qed

lemma votesRet_add_first: "votesRet_add toy_env (cast_vote k) [] = [cast_vote k]"
  by (simp add: votesRet_add_insert oset_insert_def oset_count_def)

lemma votesRet_add_second: "votesRet_add toy_env (cast_vote j) [cast_vote k] = [cast_vote k]"
  by (simp add: votesRet_add_insert oset_insert_def oset_count_def cast_vote_hashes)

lemma two_vote_block_prefix:
  "two_vote_block\<lparr>vtx := take 1 (vtx two_vote_block)\<rparr> = \<lparr>vtx = [vote_tx NO], nTime = 1000\<rparr>"
  by (simp add: two_vote_block_def)

lemma dataFromBlock_two_vote_block:
  "dataFromBlock toy_env (store_of []) (two_vote_block\<lparr>vtx := take 1 (vtx two_vote_block)\<rparr>)
     [] [] toy_params (Some 160) True = Inr ([], [cast_vote NO])"
  "dataFromBlock toy_env (store_of []) (two_vote_block\<lparr>vtx := drop 1 (vtx two_vote_block)\<rparr>)
     [] [] toy_params (Some 160) True = Inr ([], [cast_vote YES])"
  "dataFromBlock toy_env (store_of []) two_vote_block [] [] toy_params (Some 160) True
     = Inr ([], [cast_vote NO])"
proof -
  have n: "nTime (two_vote_block\<lparr>vtx := txs\<rparr>) = nTime two_vote_block" for txs by simp
  show "dataFromBlock toy_env (store_of []) (two_vote_block\<lparr>vtx := take 1 (vtx two_vote_block)\<rparr>)
     [] [] toy_params (Some 160) True = Inr ([], [cast_vote NO])"
    unfolding dataFromBlock_def dataFromTxs_nTime[OF n]
    by (simp add: two_vote_block_def dataFromTxs_one)
       (simp add: two_vote_block_def[symmetric] dataFromTx_vote_tx votesRet_add_first)
  show "dataFromBlock toy_env (store_of []) (two_vote_block\<lparr>vtx := drop 1 (vtx two_vote_block)\<rparr>)
     [] [] toy_params (Some 160) True = Inr ([], [cast_vote YES])"
    unfolding dataFromBlock_def dataFromTxs_nTime[OF n]
    by (simp add: two_vote_block_def dataFromTxs_one)
       (simp add: two_vote_block_def[symmetric] dataFromTx_vote_tx votesRet_add_first)
  have v: "vtx two_vote_block = [vote_tx NO, vote_tx YES]" by (simp add: two_vote_block_def)
  show "dataFromBlock toy_env (store_of []) two_vote_block [] [] toy_params (Some 160) True
     = Inr ([], [cast_vote NO])"
    unfolding dataFromBlock_def v
    by (simp add: dataFromTx_vote_tx votesRet_add_first votesRet_add_second)
qed

lemma UintToArith256_zeros: "UintToArith256 (replicate n 0) = 0"
  by (induction n) simp_all

lemma cast_vote_sigHash_order:
  "UintToArith256 (Vote_sigHash toy_env (cast_vote NO))
     < UintToArith256 (Vote_sigHash toy_env (cast_vote YES))"
  by (simp add: cast_vote_hashes UintToArith256_zeros NO_def YES_def)

subsection \<open>The proposals of a store are valid\<close>

lemma stored_valid_proposals:
  "proposals st' = proposals st \<Longrightarrow> stored_valid env params st \<Longrightarrow> stored_valid env params st'"
  by (simp add: stored_valid_def)

lemma dataFromOut_proposals:
  assumes "dataFromOut env st params block tx bi cp n out acc = Inr r"
  shows "fst r = fst acc
         \<or> (\<exists>p. Proposal_isValid env params p
                \<and> fst r = oset_insert (Proposal_getHash env) p (fst acc))"
  using assms unfolding dataFromOut_def Let_def
  by (auto split: list.splits if_splits elim!: ebind_InrE; blast)

lemma dataFromOut_valid:
  assumes "dataFromOut env st params block tx bi cp n out acc = Inr r"
    and "list_all (Proposal_isValid env params) (fst acc)"
  shows "list_all (Proposal_isValid env params) (fst r)"
proof -
  from dataFromOut_proposals[OF assms(1)] consider "fst r = fst acc"
    | p where "Proposal_isValid env params p"
        and "fst r = oset_insert (Proposal_getHash env) p (fst acc)"
    by blast
  then show ?thesis
  proof cases
    case 1
    then show ?thesis using assms(2) by simp
  next
    case 2
    have "set (fst r) \<subseteq> insert p (set (fst acc))"
      unfolding 2(2) by (rule set_oset_insert)
    then show ?thesis using assms(2) 2(1) by (auto simp: list_all_iff)
  qed
qed

lemma dataFromOuts_valid:
  assumes "dataFromOuts env st params block tx bi cp n outs acc = Inr r"
    and "list_all (Proposal_isValid env params) (fst acc)"
  shows "list_all (Proposal_isValid env params) (fst r)"
  using assms
proof (induction outs arbitrary: n acc)
  case Nil
  then show ?case by simp
next
  case (Cons out outs)
  from Cons.prems(1) obtain a where
    a: "dataFromOut env st params block tx bi cp n out acc = Inr a"
    and b: "dataFromOuts env st params block tx bi cp (Suc n) outs a = Inr r"
    by (auto elim: ebind_InrE)
  show ?case by (rule Cons.IH[OF b dataFromOut_valid[OF a Cons.prems(2)]])
qed

lemma dataFromTx_valid:
  assumes "dataFromTx env st params block bi cp tx acc = Inr r"
    and "list_all (Proposal_isValid env params) (fst acc)"
  shows "list_all (Proposal_isValid env params) (fst r)"
proof (cases "IsCoinBase env tx")
  case True
  with assms show ?thesis by (simp add: dataFromTx_def)
next
  case False
  with assms(1) obtain a where
    a: "dataFromOuts env st params block tx bi cp 0 (vout tx) (fst acc, snd acc, []) = Inr a"
    and r: "r = (fst a, fst (snd a))"
    by (auto simp: dataFromTx_def elim!: ebind_InrE)
  from dataFromOuts_valid[OF a] assms(2) show ?thesis by (simp add: r)
qed

lemma dataFromTxs_valid:
  assumes "dataFromTxs env st params block bi cp txs acc = Inr r"
    and "list_all (Proposal_isValid env params) (fst acc)"
  shows "list_all (Proposal_isValid env params) (fst r)"
  using assms
proof (induction txs arbitrary: acc)
  case Nil
  then show ?case by simp
next
  case (Cons tx txs)
  from Cons.prems(1) obtain a where
    a: "dataFromTx env st params block bi cp tx acc = Inr a"
    and b: "dataFromTxs env st params block bi cp txs a = Inr r"
    by (auto elim: ebind_InrE)
  show ?case by (rule Cons.IH[OF b dataFromTx_valid[OF a Cons.prems(2)]])
qed

lemma dataFromBlock_valid:
  assumes "dataFromBlock env st block [] vs params bi cp = Inr r"
  shows "list_all (Proposal_isValid env params) (fst r)"
  using dataFromTxs_valid[of env st params block bi cp "vtx block" "([], vs)" r] assms
  by (simp add: dataFromBlock_def)

lemma set_AList_update: "set (AList.update k v al) \<subseteq> insert (k, v) (set al)"
  by (induction al) auto

lemma set_AList_delete: "set (AList.delete k al) \<subseteq> set al"
  by (induction al) auto

lemma addProposal_valid:
  assumes "stored_valid env params st" and "Proposal_isValid env params p"
  shows "stored_valid env params (addProposal env st p)"
  using assms set_AList_update[of "Proposal_getHash env p" p "proposals st"]
  by (auto simp: stored_valid_def addProposal_def list_all_iff)

lemma fold_addProposal_valid:
  assumes "list_all (Proposal_isValid env params) ps" and "stored_valid env params st"
  shows "stored_valid env params (fold (\<lambda>proposal s. addProposal env s proposal) ps st)"
  using assms by (induction ps arbitrary: st) (simp_all add: addProposal_valid)

lemma proposals_addVote [simp]: "proposals (addVote env st vote) = proposals st"
  by (simp add: addVote_def Let_def)

lemma proposals_removeVote [simp]: "proposals (removeVote env st vote) = proposals st"
  by (simp add: removeVote_def Let_def)

lemma proposals_processVote [simp]: "proposals (processVote env tip vote st) = proposals st"
  by (simp add: processVote_def Let_def)

lemma proposals_fold_processVote [simp]:
  "proposals (fold (processVote env tip) vs st) = proposals st"
  by (induction vs arbitrary: st) simp_all

lemma proposals_undoVote [simp]: "proposals (undoVote env h vote st) = proposals st"
  by (simp add: undoVote_def Let_def)

lemma proposals_fold_undoVote [simp]:
  "proposals (fold (undoVote env h) vs st) = proposals st"
  by (induction vs arbitrary: st) simp_all

lemma proposals_spendVote_ptr:
  "spendVote_ptr env st ptr h t = Some st' \<Longrightarrow> proposals st' = proposals st"
  by (auto simp: spendVote_ptr_def Let_def split: option.splits if_splits)

lemma proposals_unspendVote_ptr:
  "unspendVote_ptr env st ptr h t = Some st' \<Longrightarrow> proposals st' = proposals st"
  by (auto simp: unspendVote_ptr_def Let_def split: option.splits if_splits)

lemma proposals_spendVote_ref [simp]:
  "proposals (fst (spendVote_ref env st vote h t)) = proposals st"
  by (simp add: spendVote_ref_def Let_def)

lemma proposals_unspendVote_ref [simp]:
  "proposals (fst (unspendVote_ref env st vote h t)) = proposals st"
  by (simp add: unspendVote_ref_def Let_def)

lemma proposals_spend_loop:
  "spend_loop env prevouts h ptrs st = Inr st' \<Longrightarrow> proposals st' = proposals st"
proof (induction ptrs arbitrary: st)
  case Nil
  then show ?case by simp
next
  case (Cons v ptrs)
  then show ?case
    by (auto split: option.splits if_splits dest: proposals_spendVote_ptr)
qed

lemma proposals_unspend_loop:
  "unspend_loop env prevouts h ptrs st = Inr st' \<Longrightarrow> proposals st' = proposals st"
proof (induction ptrs arbitrary: st)
  case Nil
  then show ?case by simp
next
  case (Cons v ptrs)
  then show ?case
    by (auto split: option.splits if_splits dest: proposals_unspendVote_ptr)
qed

lemma undoProposal_valid:
  "stored_valid env params st \<Longrightarrow> stored_valid env params (undoProposal env h p st)"
  using set_AList_delete[of "Proposal_getHash env p" "proposals st"]
  by (auto simp: stored_valid_def undoProposal_def removeProposal_def list_all_iff)

lemma fold_undoProposal_valid:
  "stored_valid env params st \<Longrightarrow> stored_valid env params (fold (undoProposal env h) ps st)"
  by (induction ps arbitrary: st) (simp_all add: undoProposal_valid)

lemma processBlock_valid:
  assumes "processBlock env params st block height tip = Inr st'"
    and "stored_valid env params st"
  shows "stored_valid env params st'"
proof -
  from assms(1) obtain psvs where
    d: "dataFromBlock env st block [] [] params (Some height) tip = Inr psvs"
    and s: "(let st1 = fold (\<lambda>proposal s. addProposal env s proposal) (fst psvs) st;
                 st2 = fold (processVote env tip) (snd psvs) st1
             in if \<not> tip \<or> votes st2 = [] then Inr st2
                else spend_loop env (block_prevouts block) height (sinceVotes env st2 height) st2)
            = Inr st'"
    unfolding processBlock_def by (erule ebind_InrE)
  let ?st1 = "fold (\<lambda>proposal s. addProposal env s proposal) (fst psvs) st"
  let ?st2 = "fold (processVote env tip) (snd psvs) ?st1"
  have v1: "stored_valid env params ?st1"
    by (rule fold_addProposal_valid[OF dataFromBlock_valid[OF d] assms(2)])
  have v2: "stored_valid env params ?st2"
    by (rule stored_valid_proposals[OF _ v1]) simp
  have "proposals st' = proposals ?st2"
    using s by (auto simp: Let_def split: if_splits dest: proposals_spend_loop)
  then show ?thesis by (rule stored_valid_proposals[OF _ v2])
qed

lemma BlockDisconnected_valid:
  assumes "BlockDisconnected env params st block h = Inr st'"
    and "stored_valid env params st"
  shows "stored_valid env params st'"
proof -
  from assms(1) obtain psvs where
    d: "dataFromBlock env st block [] [] params None True = Inr psvs"
    and s: "(let st1 = fold (undoVote env h) (snd psvs) st;
             st2 = fold (undoProposal env h) (fst psvs) st1
         in if h = maxInt then Inr st2
            else unspend_loop env (block_prevouts block) h (sinceVotes env st2 h) st2)
        = Inr st'"
    unfolding BlockDisconnected_def by (erule ebind_InrE)
  let ?st1 = "fold (undoVote env h) (snd psvs) st"
  let ?st2 = "fold (undoProposal env h) (fst psvs) ?st1"
  have v1: "stored_valid env params ?st1"
    by (rule stored_valid_proposals[OF _ assms(2)]) simp
  have v2: "stored_valid env params ?st2"
    by (rule fold_undoProposal_valid[OF v1])
  have "proposals st' = proposals ?st2"
    using s by (auto simp: Let_def split: if_splits dest: proposals_unspend_loop)
  then show ?thesis by (rule stored_valid_proposals[OF _ v2])
qed

lemma apply_call_valid:
  assumes "apply_call env params c st = Inr st'" and "stored_valid env params st"
  shows "stored_valid env params st'"
proof (cases c)
  case (Call_processBlock block height tip)
  then show ?thesis using assms by (auto intro: processBlock_valid)
next
  case (Call_BlockDisconnected block h)
  then show ?thesis using assms by (auto intro: BlockDisconnected_valid)
next
  case (Call_addVote vote)
  then show ?thesis using assms by (auto intro: stored_valid_proposals[rotated])
next
  case (Call_spendVote ptr h t)
  then show ?thesis using assms
    by (auto split: option.splits intro: stored_valid_proposals[rotated] dest: proposals_spendVote_ptr)
next
  case (Call_unspendVote ptr h t)
  then show ?thesis using assms
    by (auto split: option.splits intro: stored_valid_proposals[rotated] dest: proposals_unspendVote_ptr)
next
  case (Call_spendVote_ref vote h t)
  then show ?thesis using assms by (auto intro: stored_valid_proposals[rotated])
next
  case (Call_unspendVote_ref vote h t)
  then show ?thesis using assms by (auto intro: stored_valid_proposals[rotated])
next
  case Call_reset
  then show ?thesis using assms by (auto simp: reset_def stored_valid_def)
qed

lemma run_calls_valid:
  assumes "run_calls env params cs st = Inr st'" and "stored_valid env params st"
  shows "stored_valid env params st'"
  using assms
proof (induction cs arbitrary: st)
  case Nil
  then show ?case by simp
next
  case (Cons c cs)
  from Cons.prems(1) obtain a where
    a: "apply_call env params c st = Inr a" and b: "run_calls env params cs a = Inr st'"
    by (auto elim: ebind_InrE)
  show ?case by (rule Cons.IH[OF b apply_call_valid[OF a Cons.prems(2)]])
qed

lemma stored_valid_new: "stored_valid env params Governance_new"
  by (simp add: stored_valid_def Governance_new_def)

lemma stored_valid_fit:
  assumes "stored_valid env params st" and "p \<in> set (getProposals_superblock st h)"
  shows "p_amount p \<le> min (proposalMaxAmount params) (GetBlockSubsidy params h)"
proof -
  from assms(2) have m: "p \<in> snd ` set (proposals st)" and s: "p_superblock p = h"
    by (auto simp: getProposals_superblock_def)
  from m assms(1) have "Proposal_isValid env params p"
    by (auto simp: stored_valid_def list_all_iff)
  then have "p_amount p \<le> min (proposalMaxAmount params) (GetBlockSubsidy params (p_superblock p))"
    by (simp add: Proposal_isValid_def split: if_splits)
  then show ?thesis by (simp add: s)
qed

lemma payees_empty_results_empty:
  assumes "stored_valid env params st"
    and emp: "getSuperblockPayees env h (getSuperblockResults env st h params) params = []"
  shows "getSuperblockResults env st h params = []"
proof (rule ccontr)
  let ?res = "getSuperblockResults env st h params"
  assume ne: "?res \<noteq> []"
  then have "std_sort payee_less ?res \<noteq> []" by (simp add: std_sort_Nil_iff)
  then obtain x xs where x: "std_sort payee_less ?res = x # xs"
    by (cases "std_sort payee_less ?res") auto
  have "x \<in> set (std_sort payee_less ?res)" using x by simp
  then have "x \<in> set ?res" by (metis mset_std_sort set_mset_mset)
  then have "fst x \<in> set (getProposals_superblock st h)" by (rule results_from_store)
  then have "p_amount (fst x) \<le> min (proposalMaxAmount params) (GetBlockSubsidy params h)"
    by (rule stored_valid_fit[OF assms(1)])
  then have "getSuperblockPayees env h ?res params \<noteq> []"
    using ne x by (simp add: getSuperblockPayees_def Let_def payees_loop_nonempty)
  with emp show False by simp
qed

lemma walk_push:
  assumes "d \<noteq> []" and "length d < 76"
  shows "script_walk (OP_RETURN # of_nat (length d) # d) False [] = (True, d)"
proof -
  have g1: "GetOp (OP_RETURN # of_nat (length d) # d)
            = Some (106, [], of_nat (length d) # d)"
    by (simp add: GetOp_def OP_RETURN_def OP_PUSHDATA4_def)
  have u: "unat (of_nat (length d) :: byte) = length d"
    using assms(2) by (simp add: unsigned_of_nat take_bit_eq_mod)
  have g2: "GetOp (of_nat (length d) # d) = Some (length d, d, [])"
    using assms(2) by (simp add: GetOp_def OP_PUSHDATA4_def OP_PUSHDATA1_def u)
  have w2: "script_walk (of_nat (length d) # d) False [] = (True, d)"
    using assms by (subst script_walk.simps) (simp add: g2 OP_PUSHDATA1_def)
  show ?thesis
    by (subst script_walk.simps)
       (simp add: g1 w2 OP_PUSHDATA1_def OP_PUSHDATA2_def OP_PUSHDATA4_def)
qed

lemma int32_round:
  assumes "- (2 ^ 31) \<le> x" and "x < 2 ^ 31"
  shows "(if nat (x mod 2 ^ 32) < 2 ^ 31 then int (nat (x mod 2 ^ 32))
            else int (nat (x mod 2 ^ 32)) - 2 ^ 32) = (x::int)"
proof (cases "0 \<le> x")
  case True
  then have "x mod 4294967296 = x" using assms(2) by simp
  then show ?thesis using True assms(2) by simp
next
  case False
  have "(x + 4294967296) mod 4294967296 = x + 4294967296"
    using False assms(1) by (intro mod_pos_pos_trivial) simp_all
  then have "x mod 4294967296 = x + 4294967296" by simp
  then show ?thesis using False assms(1) by simp
qed

lemma int64_round:
  assumes "- (2 ^ 63) \<le> x" and "x < 2 ^ 63"
  shows "(if nat (x mod 2 ^ 64) < 2 ^ 63 then int (nat (x mod 2 ^ 64))
            else int (nat (x mod 2 ^ 64)) - 2 ^ 64) = (x::int)"
proof (cases "0 \<le> x")
  case True
  then have "x mod 18446744073709551616 = x" using assms(2) by simp
  then show ?thesis using True assms(2) by simp
next
  case False
  have "(x + 18446744073709551616) mod 18446744073709551616 = x + 18446744073709551616"
    using False assms(1) by (intro mod_pos_pos_trivial) simp_all
  then have "x mod 18446744073709551616 = x + 18446744073709551616" by simp
  then show ?thesis using False assms(1) by simp
qed

lemma read_uint_le_bytes: "x < 256 ^ k \<Longrightarrow> read_uint k (le_bytes k x @ r) = Inr (x, r)"
  by (simp add: read_uint_def read_bytes_exact length_le_bytes le_nat_le_bytes)

lemma read_int32_ser:
  assumes "- (2 ^ 31) \<le> x" and "x < 2 ^ 31"
  shows "read_int32 (ser_int32 x @ r) = Inr (x, r)"
proof -
  have "nat (x mod 2 ^ 32) < 2 ^ 32" by simp
  then have b: "nat (x mod 2 ^ 32) < 256 ^ 4" by simp
  show ?thesis
    unfolding read_int32_def ser_int32_def read_uint_le_bytes[OF b]
    using int32_round[OF assms] by (simp split: if_splits)
qed

lemma read_int64_ser:
  assumes "- (2 ^ 63) \<le> x" and "x < 2 ^ 63"
  shows "read_int64 (ser_int64 x @ r) = Inr (x, r)"
proof -
  have "nat (x mod 2 ^ 64) < 2 ^ 64" by simp
  then have b: "nat (x mod 2 ^ 64) < 256 ^ 8" by simp
  show ?thesis
    unfolding read_int64_def ser_int64_def read_uint_le_bytes[OF b]
    using int64_round[OF assms] by (simp split: if_splits)
qed

lemma unat_of_char: "unat (of_char c :: byte) = of_char c"
proof -
  have "(of_char c :: byte) = of_nat (of_char c)" by (simp only: of_nat_of_char)
  then have "unat (of_char c :: byte) = (of_char c :: nat) mod 256"
    by (simp add: unsigned_of_nat take_bit_eq_mod del: of_nat_of_char)
  then show ?thesis by simp
qed

lemma chars_round: "map (\<lambda>b. char_of (unat b)) (map of_char s :: byte list) = s"
  by (induction s) (simp_all add: unat_of_char)

lemma read_string_ser:
  assumes "length s < 253"
  shows "read_string (ser_string s @ r) = Inr (s, r)"
proof -
  have "ser_string s = ser_vector (map of_char s)"
    by (simp add: ser_string_def ser_vector_def)
  then show ?thesis
    using read_vector_ser[of "map of_char s" r] assms chars_round[of s]
    by (simp add: read_string_def del: map_map)
qed

lemma Proposal_Unserialize_Serialize:
  assumes "- (2 ^ 31) \<le> p_superblock p" and "p_superblock p < 2 ^ 31"
    and "- (2 ^ 63) \<le> p_amount p" and "p_amount p < 2 ^ 63"
    and "length (p_address p) < 253" and "length (p_name p) < 253"
    and "length (p_url p) < 253" and "length (p_description p) < 253"
  shows "Proposal_Unserialize p0 (Proposal_Serialize p) = Inr (p\<lparr>p_blockNumber := p_blockNumber p0\<rparr>)"
proof -
  have d: "read_string (ser_string (p_description p)) = Inr (p_description p, [])"
    using read_string_ser[OF assms(8), of "[]"] by simp
  show ?thesis
    using assms(1-7)
    by (simp add: Proposal_Unserialize_def Proposal_Serialize_def ser_uint8_def read_int32_ser
        read_int64_ser read_string_ser d)
qed

lemma alpha_wire:
  "Proposal_Serialize P_alpha
     = NETWORK_VERSION # PROPOSAL # tl (tl (Proposal_Serialize P_alpha))"
  by (simp add: Proposal_Serialize_def ser_uint8_def P_alpha_def NETWORK_VERSION_def PROPOSAL_def)

lemma alpha_wire_length: "length (Proposal_Serialize P_alpha) = 27"
  by (simp add: Proposal_Serialize_def ser_uint8_def P_alpha_def ser_int32_def ser_int64_def
      ser_string_def WriteCompactSize_def length_le_bytes)

lemma alpha_read:
  "Proposal_Unserialize (Proposal_default\<lparr>p_blockNumber := 150\<rparr>) (Proposal_Serialize P_alpha)
     = Inr P_alpha"
proof -
  have "Proposal_Unserialize (Proposal_default\<lparr>p_blockNumber := 150\<rparr>) (Proposal_Serialize P_alpha)
        = Inr (P_alpha\<lparr>p_blockNumber := p_blockNumber (Proposal_default\<lparr>p_blockNumber := 150\<rparr>)\<rparr>)"
    by (rule Proposal_Unserialize_Serialize) (simp_all add: P_alpha_def)
  then show ?thesis by (simp add: P_alpha_def)
qed

lemma alpha_valid: "Proposal_isValid toy_env toy_params P_alpha"
proof -
  have l: "length (Proposal_hashBytes P_alpha) = 27"
    by (simp add: Proposal_hashBytes_def ser_uint8_def P_alpha_def ser_int32_def ser_int64_def
        ser_string_def WriteCompactSize_def length_le_bytes)
  have n: "name_matches (p_name P_alpha)"
    by (simp add: name_matches_def isWordChar_def P_alpha_def)
  have s: "p_superblock P_alpha smod superblock toy_params = 0"
    by (simp add: P_alpha_def toy_params_def signed_modulo_int_def)
  show ?thesis
    unfolding Proposal_isValid_def l
    using n s by (simp add: P_alpha_def toy_params_def toy_env_def PROPOSAL_def NETWORK_VERSION_def)
qed

lemma alpha_cutoff: "outsideProposalCutoff P_alpha 150 toy_params"
  by (simp add: outsideProposalCutoff_def Proposal_isNull_def P_alpha_def toy_params_def)

lemma alpha_block_data:
  "dataFromBlock toy_env Governance_new (block_of [alpha_out]) [] [] toy_params (Some 150) True
     = Inr ([P_alpha], [])"
proof -
  have s: "scriptPubKey alpha_out
           = OP_RETURN # of_nat (length (Proposal_Serialize P_alpha)) # Proposal_Serialize P_alpha"
    by (simp add: alpha_out_def)
  have ne: "Proposal_Serialize P_alpha \<noteq> []"
    using alpha_wire_length by auto
  have w: "script_walk (scriptPubKey alpha_out) False [] = (True, Proposal_Serialize P_alpha)"
    unfolding s by (rule walk_push[OF ne]) (simp add: alpha_wire_length)
  have w1: "fst (script_walk (scriptPubKey alpha_out) False [])" by (simp add: w)
  have w2: "snd (script_walk (scriptPubKey alpha_out) False [])
            = (NETWORK_VERSION # PROPOSAL # tl (tl (Proposal_Serialize P_alpha))) @ []"
    using alpha_wire by (simp add: w)
  have r: "Proposal_Unserialize (Proposal_default\<lparr>p_blockNumber := height_of (Some 150)\<rparr>)
             (NETWORK_VERSION # PROPOSAL # tl (tl (Proposal_Serialize P_alpha))) = Inr P_alpha"
    using alpha_read alpha_wire by (simp add: height_of_def)
  have o: "dataFromOut toy_env Governance_new toy_params (block_of [alpha_out]) (tx_of [alpha_out])
             (Some 150) True 0 alpha_out ([], [], [])
           = Inr ([P_alpha], [], [])"
    unfolding dataFromOut_proposal_extra[OF s w1 w2 r]
    by (simp add: alpha_valid alpha_cutoff oset_insert_def oset_count_def)
  show ?thesis
    unfolding dataFromBlock_block_of by (simp add: o)
qed

lemma alpha_block_processed:
  "processBlock toy_env toy_params Governance_new (block_of [alpha_out]) 150 True = Inr alpha_store"
  unfolding processBlock_def alpha_block_data
  by (simp add: addProposal_def Governance_new_def umap_count_def alpha_store_def)

lemma alpha_store_run:
  "run_calls toy_env toy_params [Call_processBlock (block_of [alpha_out]) 150 True] Governance_new
     = Inr alpha_store"
  by (simp add: alpha_block_processed)

lemma alpha_store_results: "getSuperblockResults toy_env alpha_store 200 toy_params = []"
proof -
  have f: "getProposalsForSuperblock toy_env alpha_store 200 = ([P_alpha], [])"
    by (simp add: getProposalsForSuperblock_def getProposals_superblock_def
        getVotes_superblock_def alpha_store_def umap_count_def Let_def P_alpha_def)
  show ?thesis
    using toy_isSuperblock
    by (simp add: getSuperblockResults_def Let_def f getTally0 results_erased_def
        Tally_default_def)
qed

section \<open>The claims\<close>

text \<open>
  Claim C1 does not hold of the code. The votes of a block all carry the time of the block.
  \<open>dataFromBlock\<close> tests the sig-hashes of two votes with one vote-id (line 1318), but what
  it then calls is the \<open>insert\<close> of a \<open>std::set\<close> ordered by the vote-id, which leaves the
  set as it is when the vote-id is present. So the vote found first stays: a vote that
  \<open>dataFromBlock\<close> holds after the first \<open>k\<close> transactions of a block is in its result for
  the whole block, and is the only vote of the result with its vote-id, whatever the
  sig-hashes of the votes that follow.
\<close>

theorem dataFromBlock_keeps_first_vote:
  assumes "dataFromBlock env st (block\<lparr>vtx := take k (vtx block)\<rparr>) proposalsRet votesRet params
             blockIndex checkProposal = Inr r1"
    and "dataFromBlock env st block proposalsRet votesRet params blockIndex checkProposal = Inr r"
    and "distinct (map (Vote_getHash env) votesRet)"
    and "x \<in> set (snd r1)"
  shows "x \<in> set (snd r)
         \<and> (\<forall>y\<in>set (snd r). Vote_getHash env y = Vote_getHash env x \<longrightarrow> y = x)"
proof -
  have p: "dataFromTxs env st params block blockIndex checkProposal (take k (vtx block))
             (proposalsRet, votesRet) = Inr r1"
    using assms(1) dataFromTxs_nTime[of "block\<lparr>vtx := take k (vtx block)\<rparr>" block]
    by (simp add: dataFromBlock_def)
  have "dataFromTxs env st params block blockIndex checkProposal
          (take k (vtx block) @ drop k (vtx block)) (proposalsRet, votesRet) = Inr r"
    using assms(2) by (simp add: dataFromBlock_def)
  then have q: "dataFromTxs env st params block blockIndex checkProposal (drop k (vtx block)) r1 = Inr r"
    unfolding dataFromTxs_append p by simp
  have x: "x \<in> set (snd r)"
    by (rule dataFromTxs_keeps[OF q assms(4)])
  have "distinct (map (Vote_getHash env) (snd r1))"
    using dataFromTxs_distinct[OF p] assms(3) by simp
  then have "distinct (map (Vote_getHash env) (snd r))"
    by (rule dataFromTxs_distinct[OF q])
  then have "inj_on (Vote_getHash env) (set (snd r))"
    by (simp add: distinct_map)
  with x show ?thesis by (auto dest: inj_onD)
qed

text \<open>
  The block \<open>two_vote_block\<close> at height 160: its first transaction alone yields the NO
  vote, its second alone the YES vote. They have one vote-id and one time, and the sig-hash
  of the YES vote is the larger. The result for the block is the NO vote.
\<close>

theorem dataFromBlock_keeps_first_vote_witness:
  "dataFromBlock toy_env (store_of []) (two_vote_block\<lparr>vtx := take 1 (vtx two_vote_block)\<rparr>)
     [] [] toy_params (Some 160) True = Inr ([], [cast_vote NO])
   \<and> dataFromBlock toy_env (store_of []) (two_vote_block\<lparr>vtx := drop 1 (vtx two_vote_block)\<rparr>)
     [] [] toy_params (Some 160) True = Inr ([], [cast_vote YES])
   \<and> Vote_getHash toy_env (cast_vote YES) = Vote_getHash toy_env (cast_vote NO)
   \<and> v_time (cast_vote YES) = v_time (cast_vote NO)
   \<and> UintToArith256 (Vote_sigHash toy_env (cast_vote NO))
       < UintToArith256 (Vote_sigHash toy_env (cast_vote YES))
   \<and> dataFromBlock toy_env (store_of []) two_vote_block [] [] toy_params (Some 160) True
       = Inr ([], [cast_vote NO])
   \<and> cast_vote NO \<in> set (snd (([] :: Proposal list), [cast_vote NO]))
   \<and> cast_vote YES \<notin> set (snd (([] :: Proposal list), [cast_vote NO]))"
proof -
  have d: "distinct (map (Vote_getHash toy_env) [])" by simp
  have m: "cast_vote NO \<in> set (snd (([] :: Proposal list), [cast_vote NO]))" by simp
  have y: "cast_vote YES \<noteq> cast_vote NO"
  proof
    assume "cast_vote YES = cast_vote NO"
    then have "v_vote (cast_vote YES) = v_vote (cast_vote NO)" by simp
    then show False by (simp add: cast_vote_def YES_def NO_def)
  qed
  have k: "cast_vote NO \<in> set (snd (([] :: Proposal list), [cast_vote NO]))
           \<and> (\<forall>y\<in>set (snd (([] :: Proposal list), [cast_vote NO])).
                 Vote_getHash toy_env y = Vote_getHash toy_env (cast_vote NO) \<longrightarrow> y = cast_vote NO)"
    by (rule dataFromBlock_keeps_first_vote
             [OF dataFromBlock_two_vote_block(1) dataFromBlock_two_vote_block(3) d m])
  have t: "v_time (cast_vote YES) = v_time (cast_vote NO)" by (simp add: cast_vote_def)
  have h: "Vote_getHash toy_env (cast_vote YES) = Vote_getHash toy_env (cast_vote NO)"
    by (simp add: cast_vote_hashes(1))
  have n: "cast_vote YES \<notin> set (snd (([] :: Proposal list), [cast_vote NO]))"
    using y by simp
  from k have r: "cast_vote NO \<in> set (snd (([] :: Proposal list), [cast_vote NO]))"
    by (rule conjunct1)
  show ?thesis
    by (intro conjI)
       (rule dataFromBlock_two_vote_block h t cast_vote_sigHash_order r n)+
qed

text \<open>
  Claim C2, as amended. \<open>Proposal::getHash\<close> hashes the fields in the order version, type,
  name, superblock, amount, address, url, description. The wire serialisation writes them in
  the order version, type, superblock, amount, address, name, url, description. The two byte
  sequences have the same length and the same bytes up to their order.
\<close>

theorem Proposal_getHash_field_order:
  "Proposal_getHash env p
     = hash256 env (ser_uint8 (p_version p) @ ser_uint8 (p_type p) @ ser_string (p_name p)
         @ ser_int32 (p_superblock p) @ ser_int64 (p_amount p) @ ser_string (p_address p)
         @ ser_string (p_url p) @ ser_string (p_description p))
   \<and> Proposal_Serialize p
     = ser_uint8 (p_version p) @ ser_uint8 (p_type p) @ ser_int32 (p_superblock p)
         @ ser_int64 (p_amount p) @ ser_string (p_address p) @ ser_string (p_name p)
         @ ser_string (p_url p) @ ser_string (p_description p)
   \<and> length (Proposal_hashBytes p) = length (Proposal_Serialize p)
   \<and> mset (Proposal_hashBytes p) = mset (Proposal_Serialize p)"
  by (simp add: Proposal_getHash_def Proposal_hashBytes_def Proposal_Serialize_def)

text \<open>The amended claim at the proposal \<open>alpha\<close> of scenario S1.\<close>

theorem Proposal_getHash_field_order_witness:
  "length (Proposal_hashBytes P_alpha) = length (Proposal_Serialize P_alpha)
   \<and> take 2 (Proposal_hashBytes P_alpha) = [1, 1]"
  using Proposal_getHash_field_order [of toy_env P_alpha]
  by (simp add: Proposal_hashBytes_def P_alpha_def ser_uint8_def)

text \<open>
  Claim C2 as stated fails: for the proposal \<open>alpha\<close> the bytes that are hashed are not the
  bytes of the wire serialisation (the name comes third in the one and sixth in the other).
\<close>

theorem Proposal_hash_bytes_differ_from_wire:
  "Proposal_hashBytes P_alpha \<noteq> Proposal_Serialize P_alpha"
  by (simp add: Proposal_hashBytes_def Proposal_Serialize_def P_alpha_def ser_uint8_def
      ser_string_def ser_int32_def WriteCompactSize_def)

text \<open>
  Claim C3, as amended. For an output behind \<open>OP_RETURN\<close>: when the loop over the script
  ends with no data (a push that announces more bytes than the script holds, no push at all),
  or the payload has its two header bytes and a version other than 1 or a type that is
  neither proposal nor vote, \<open>dataFromBlock\<close> skips that output without an error and goes
  on with the outputs that follow. When the payload is one byte, too short for the header,
  or the header is there and the body of the proposal or vote cannot be read, the read from
  the stream throws and the error leaves the loop: the outputs that follow are not
  processed. Bytes that follow a complete body are not looked at: the proposal or vote is
  read as if they were absent.
\<close>

theorem dataFromOuts_malformed_output:
  assumes "scriptPubKey out = OP_RETURN # bs"
  shows
    "(\<not> fst (script_walk (scriptPubKey out) False [])
        \<or> snd (script_walk (scriptPubKey out) False []) = []
      \<longrightarrow> dataFromOuts env st params block tx bi cp n (out # outs) acc
          = dataFromOuts env st params block tx bi cp (Suc n) outs acc)
     \<and> (fst (script_walk (scriptPubKey out) False [])
         \<and> (\<exists>v t rest. snd (script_walk (scriptPubKey out) False []) = v # t # rest
                \<and> (v \<noteq> NETWORK_VERSION \<or> (t \<noteq> PROPOSAL \<and> t \<noteq> VOTE)))
      \<longrightarrow> dataFromOuts env st params block tx bi cp n (out # outs) acc
          = dataFromOuts env st params block tx bi cp (Suc n) outs acc)
     \<and> (fst (script_walk (scriptPubKey out) False [])
         \<and> (\<exists>b. snd (script_walk (scriptPubKey out) False []) = [b])
      \<longrightarrow> dataFromOuts env st params block tx bi cp n (out # outs) acc = Inl EndOfData)
     \<and> (fst (script_walk (scriptPubKey out) False [])
         \<and> (\<exists>rest. snd (script_walk (scriptPubKey out) False []) = NETWORK_VERSION # PROPOSAL # rest
                \<and> Proposal_Unserialize (Proposal_default\<lparr>p_blockNumber := height_of bi\<rparr>)
                     (NETWORK_VERSION # PROPOSAL # rest) = Inl e)
      \<longrightarrow> dataFromOuts env st params block tx bi cp n (out # outs) acc = Inl e)
     \<and> (fst (script_walk (scriptPubKey out) False [])
         \<and> (\<exists>rest. snd (script_walk (scriptPubKey out) False []) = NETWORK_VERSION # VOTE # rest
                \<and> Vote_Unserialize env
                     (Vote_default\<lparr>v_outpoint := \<lparr>op_hash = tx_hash tx, op_n = of_nat n\<rparr>,
                        v_time := nTime block, v_blockNumber := height_of bi\<rparr>)
                     (NETWORK_VERSION # VOTE # rest) = Inl e)
      \<longrightarrow> dataFromOuts env st params block tx bi cp n (out # outs) acc = Inl e)
     \<and> (fst (script_walk (scriptPubKey out) False [])
         \<and> (\<exists>rest ex. snd (script_walk (scriptPubKey out) False [])
                          = (NETWORK_VERSION # PROPOSAL # rest) @ ex
                \<and> Proposal_Unserialize (Proposal_default\<lparr>p_blockNumber := height_of bi\<rparr>)
                     (NETWORK_VERSION # PROPOSAL # rest) = Inr q)
      \<longrightarrow> dataFromOut env st params block tx bi cp n out acc
          = (if Proposal_isValid env params q
                \<and> (case bi of None \<Rightarrow> True | Some h \<Rightarrow> outsideProposalCutoff q h params)
             then Inr (oset_insert (Proposal_getHash env) q (fst acc), fst (snd acc), snd (snd acc))
             else Inr acc))
     \<and> (Vote_Unserialize env v0 d = Inr v1 \<longrightarrow> Vote_Unserialize env v0 (d @ ex') = Inr v1)"
proof (intro conjI impI)
  assume "\<not> fst (script_walk (scriptPubKey out) False [])
        \<or> snd (script_walk (scriptPubKey out) False []) = []"
  from dataFromOut_no_data[OF assms this]
  show "dataFromOuts env st params block tx bi cp n (out # outs) acc
          = dataFromOuts env st params block tx bi cp (Suc n) outs acc"
    by simp
next
  assume a: "fst (script_walk (scriptPubKey out) False [])
         \<and> (\<exists>v t rest. snd (script_walk (scriptPubKey out) False []) = v # t # rest
                \<and> (v \<noteq> NETWORK_VERSION \<or> (t \<noteq> PROPOSAL \<and> t \<noteq> VOTE)))"
  then obtain v t rest where "snd (script_walk (scriptPubKey out) False []) = v # t # rest"
      "v \<noteq> NETWORK_VERSION \<or> (t \<noteq> PROPOSAL \<and> t \<noteq> VOTE)" by blast
  from dataFromOut_header[OF assms _ this] a
  show "dataFromOuts env st params block tx bi cp n (out # outs) acc
          = dataFromOuts env st params block tx bi cp (Suc n) outs acc"
    by simp
next
  assume a: "fst (script_walk (scriptPubKey out) False [])
         \<and> (\<exists>b. snd (script_walk (scriptPubKey out) False []) = [b])"
  then obtain b where "snd (script_walk (scriptPubKey out) False []) = [b]" by blast
  from dataFromOut_short_header[OF assms _ this] a
  show "dataFromOuts env st params block tx bi cp n (out # outs) acc = Inl EndOfData"
    by simp
next
  assume a: "fst (script_walk (scriptPubKey out) False [])
         \<and> (\<exists>rest. snd (script_walk (scriptPubKey out) False []) = NETWORK_VERSION # PROPOSAL # rest
                \<and> Proposal_Unserialize (Proposal_default\<lparr>p_blockNumber := height_of bi\<rparr>)
                     (NETWORK_VERSION # PROPOSAL # rest) = Inl e)"
  then obtain rest where "snd (script_walk (scriptPubKey out) False []) = NETWORK_VERSION # PROPOSAL # rest"
      "Proposal_Unserialize (Proposal_default\<lparr>p_blockNumber := height_of bi\<rparr>)
                     (NETWORK_VERSION # PROPOSAL # rest) = Inl e" by blast
  from dataFromOut_proposal_body[OF assms _ this] a
  show "dataFromOuts env st params block tx bi cp n (out # outs) acc = Inl e"
    by simp
next
  assume a: "fst (script_walk (scriptPubKey out) False [])
         \<and> (\<exists>rest. snd (script_walk (scriptPubKey out) False []) = NETWORK_VERSION # VOTE # rest
                \<and> Vote_Unserialize env
                     (Vote_default\<lparr>v_outpoint := \<lparr>op_hash = tx_hash tx, op_n = of_nat n\<rparr>,
                        v_time := nTime block, v_blockNumber := height_of bi\<rparr>)
                     (NETWORK_VERSION # VOTE # rest) = Inl e)"
  then obtain rest where "snd (script_walk (scriptPubKey out) False []) = NETWORK_VERSION # VOTE # rest"
      "Vote_Unserialize env
                     (Vote_default\<lparr>v_outpoint := \<lparr>op_hash = tx_hash tx, op_n = of_nat n\<rparr>,
                        v_time := nTime block, v_blockNumber := height_of bi\<rparr>)
                     (NETWORK_VERSION # VOTE # rest) = Inl e" by blast
  from dataFromOut_vote_body[OF assms _ this] a
  show "dataFromOuts env st params block tx bi cp n (out # outs) acc = Inl e"
    by simp
next
  assume a: "fst (script_walk (scriptPubKey out) False [])
         \<and> (\<exists>rest ex. snd (script_walk (scriptPubKey out) False [])
                          = (NETWORK_VERSION # PROPOSAL # rest) @ ex
                \<and> Proposal_Unserialize (Proposal_default\<lparr>p_blockNumber := height_of bi\<rparr>)
                     (NETWORK_VERSION # PROPOSAL # rest) = Inr q)"
  then obtain rest ex where
      "snd (script_walk (scriptPubKey out) False []) = (NETWORK_VERSION # PROPOSAL # rest) @ ex"
      "Proposal_Unserialize (Proposal_default\<lparr>p_blockNumber := height_of bi\<rparr>)
                     (NETWORK_VERSION # PROPOSAL # rest) = Inr q" by blast
  from dataFromOut_proposal_extra[OF assms _ this] a
  show "dataFromOut env st params block tx bi cp n out acc
          = (if Proposal_isValid env params q
                \<and> (case bi of None \<Rightarrow> True | Some h \<Rightarrow> outsideProposalCutoff q h params)
             then Inr (oset_insert (Proposal_getHash env) q (fst acc), fst (snd acc), snd (snd acc))
             else Inr acc)"
    by simp
next
  assume "Vote_Unserialize env v0 d = Inr v1"
  then show "Vote_Unserialize env v0 (d @ ex') = Inr v1"
    by (rule Vote_Unserialize_append)
qed

text \<open>
  The amended claim at the outputs of the scenario: the short push and the wrong version are
  skipped; the short header and the short body throw \<open>EndOfData\<close>.
\<close>

theorem dataFromOuts_malformed_output_witness:
  "dataFromOuts toy_env (store_of []) toy_params (block_of [out_short_push, out_bad_version])
       (tx_of [out_short_push, out_bad_version]) (Some 150) True 0
       [out_short_push, out_bad_version] ([], [], []) = Inr ([], [], [])
   \<and> dataFromOuts toy_env (store_of []) toy_params (block_of [out_short_header, out_bad_version])
       (tx_of [out_short_header, out_bad_version]) (Some 150) True 0
       [out_short_header, out_bad_version] ([], [], []) = Inl EndOfData
   \<and> dataFromOuts toy_env (store_of []) toy_params (block_of [out_short_body, out_bad_version])
       (tx_of [out_short_body, out_bad_version]) (Some 150) True 0
       [out_short_body, out_bad_version] ([], [], []) = Inl EndOfData"
proof -
  have s1: "scriptPubKey out_short_push = OP_RETURN # [5, 1]"
    and s2: "scriptPubKey out_bad_version = OP_RETURN # [2, 2, 1]"
    and s3: "scriptPubKey out_short_header = OP_RETURN # [1, 1]"
    and s4: "scriptPubKey out_short_body = OP_RETURN # [2, 1, 1]"
    by (simp_all add: out_short_push_def out_bad_version_def out_short_header_def out_short_body_def)
  have w4: "script_walk (OP_RETURN # [2, 1, 1]) False [] = (True, NETWORK_VERSION # PROPOSAL # [])"
    by (simp add: walk_short_body NETWORK_VERSION_def PROPOSAL_def)
  have v: "(2::byte) \<noteq> NETWORK_VERSION" by (simp add: NETWORK_VERSION_def)
  show ?thesis
    using dataFromOuts_malformed_output [OF s1, of toy_env "store_of []" toy_params
        "block_of [out_short_push, out_bad_version]" "tx_of [out_short_push, out_bad_version]"
        "Some 150" True 0 "[out_bad_version]" "([], [], [])"]
      dataFromOuts_malformed_output [OF s2, of toy_env "store_of []" toy_params
        "block_of [out_short_push, out_bad_version]" "tx_of [out_short_push, out_bad_version]"
        "Some 150" True 1 "[]" "([], [], [])"]
      dataFromOuts_malformed_output [OF s3, of toy_env "store_of []" toy_params
        "block_of [out_short_header, out_bad_version]" "tx_of [out_short_header, out_bad_version]"
        "Some 150" True 0 "[out_bad_version]" "([], [], [])"]
      dataFromOuts_malformed_output [OF s4, where env=toy_env and st="store_of []"
        and params=toy_params and block="block_of [out_short_body, out_bad_version]"
        and tx="tx_of [out_short_body, out_bad_version]" and bi="Some 150" and cp=True and n=0
        and outs="[out_bad_version]" and acc="([], [], [])" and e=EndOfData]
    unfolding s1 s2 s3 s4 w4
    by (simp add: walk_short_push walk_bad_version walk_short_header read_short_body v)
qed

text \<open>
  Claim C3 as stated fails: a block whose only output behind \<open>OP_RETURN\<close> pushes one
  byte makes \<open>dataFromBlock\<close>, and \<open>processBlock\<close> with it, end in the error of the
  stream.
\<close>

theorem dataFromBlock_short_header_throws:
  "dataFromBlock toy_env (store_of []) (block_of [out_short_header]) [] [] toy_params (Some 150) True
     = Inl EndOfData
   \<and> processBlock toy_env toy_params (store_of []) (block_of [out_short_header]) 150 True
     = Inl EndOfData"
proof -
  have "dataFromOut toy_env (store_of []) toy_params (block_of [out_short_header])
          (tx_of [out_short_header]) (Some 150) True 0 out_short_header ([], [], []) = Inl EndOfData"
    by (rule dataFromOut_short_header[where bs="[1, 1]" and b=1])
       (simp_all add: out_short_header_def walk_short_header)
  then have "dataFromBlock toy_env (store_of []) (block_of [out_short_header]) [] [] toy_params
               (Some 150) True = Inl EndOfData"
    by (simp add: dataFromBlock_block_of)
  then show ?thesis by (simp add: processBlock_def)
qed

text \<open>
  Claim C4 does not hold of the code. \<open>BlockDisconnected\<close> takes the votes it unspends
  from \<open>getMutableSBVotes\<close>, which leaves out every vote that is marked spent. None of
  the votes it reaches has the height of the block as its \<open>spentBlock\<close>, so
  \<open>unspendVote\<close> changes none: in a store whose two vote maps are in step, the result of
  \<open>BlockDisconnected\<close> at a height above 0 is the state its removal of votes and proposals
  leaves, with every spent marker in place.
\<close>

theorem BlockDisconnected_unspends_nothing:
  assumes "dataFromBlock env st block [] [] params None True = Inr psvs"
    and "st2 = fold (undoProposal env h) (fst psvs) (fold (undoVote env h) (snd psvs) st)"
    and "Governance_wf st2" and "votes_synced env st2" and "0 < h"
  shows "unspend_loop env (block_prevouts block) h (sinceVotes env st2 h) st2 = Inr st2
         \<and> BlockDisconnected env params st block h = Inr st2"
proof -
  have "\<forall>ptr\<in>set (sinceVotes env st2 h). \<exists>v. deref st2 ptr = Some v \<and> \<not> Vote_spent v
             \<and> map_of (votes st2) (Vote_getHash env v) = Some v"
    using getMutableSBVotes_synced[OF assms(3,4)] by (auto simp: sinceVotes_def)
  then have u: "unspend_loop env (block_prevouts block) h (sinceVotes env st2 h) st2 = Inr st2"
    by (rule unspend_loop_unspent[OF assms(5)])
  then show ?thesis
    using assms(1,2) by (simp add: BlockDisconnected_def Let_def)
qed

text \<open>
  Scenario S5: the vote on \<open>alpha\<close> (superblock 200) was marked spent at height 160 by the
  transaction that spends its utxo in the block. Disconnecting that block at height 160
  leaves the store as it was, the vote still spent.
\<close>

theorem BlockDisconnected_unspends_nothing_witness:
  "Governance_wf (store_of [vote_spent]) \<and> votes_synced toy_env (store_of [vote_spent])
   \<and> p_superblock P_alpha \<ge> 160
   \<and> umap_count (block_prevouts spend_block) (v_utxo vote_spent)
   \<and> umap_index uint256_null (block_prevouts spend_block) (v_utxo vote_spent) = v_spentHash vote_spent
   \<and> v_spentBlock vote_spent = 160
   \<and> BlockDisconnected toy_env toy_params (store_of [vote_spent]) spend_block 160
       = Inr (store_of [vote_spent])
   \<and> map_of (votes (store_of [vote_spent])) (Vote_getHash toy_env vote_spent) = Some vote_spent
   \<and> Vote_spent vote_spent"
proof -
  have pv: "block_prevouts spend_block
      = [(COutPoint_null, replicate 32 60), (\<lparr>op_hash = replicate 32 3, op_n = 0\<rparr>, replicate 32 50)]"
    by (simp add: block_prevouts_def spend_block_def COutPoint_null_def uint256_null_def
        replicate_numeral_Cons)
  have u: "v_utxo vote_spent = \<lparr>op_hash = replicate 32 3, op_n = 0\<rparr>"
         "v_spentHash vote_spent = replicate 32 50" "v_spentBlock vote_spent = 160"
    by (simp_all add: vote_spent_def mk_vote_def)
  have c: "umap_count (block_prevouts spend_block) (v_utxo vote_spent)"
       "umap_index uint256_null (block_prevouts spend_block) (v_utxo vote_spent) = v_spentHash vote_spent"
    unfolding pv u
    by (simp_all add: umap_count_def umap_index_def COutPoint_null_def uint256_null_def
        replicate_numeral_Cons)
  have d: "dataFromBlock toy_env (store_of [vote_spent]) spend_block [] [] toy_params None True
             = Inr ([], [])"
    by (rule spend_block_data)
  have b: "BlockDisconnected toy_env toy_params (store_of [vote_spent]) spend_block 160
       = Inr (store_of [vote_spent])"
    using BlockDisconnected_unspends_nothing [OF d, of "store_of [vote_spent]" 160]
      store_spent_wf store_spent_synced
    by simp
  show ?thesis
    using b c u store_spent_wf store_spent_synced votes_store_of_hd[of vote_spent "[]"]
    by (simp add: P_alpha_def Vote_spent_def)
qed

text \<open>
  Claim C5. In a store that calls of the governance object have built from the empty one,
  for a proof-of-stake block at a superblock height: when the payee list computed for that
  height is empty, \<open>isValidSuperblock\<close> returns true and leaves \<open>paymentsRet\<close> as it was.
  Every proposal of such a store has passed \<open>Proposal::isValid\<close> in \<open>dataFromBlock\<close>, so it
  asks no more than the budget of its superblock; the payee list is then empty only when
  the results are, and the function returns at line 1424.
\<close>

theorem isValidSuperblock_no_payees:
  assumes "run_calls env params calls Governance_new = Inr st"
    and "isSuperblock h params" and "IsProofOfStake env block"
    and "getSuperblockPayees env h (getSuperblockResults env st h params) params = []"
  shows "isValidSuperblock env st block h params paymentsRet = Some (True, paymentsRet)"
proof -
  have "stored_valid env params st"
    by (rule run_calls_valid[OF assms(1) stored_valid_new])
  then have "getSuperblockResults env st h params = []"
    using assms(4) by (rule payees_empty_results_empty)
  then show ?thesis using assms(2,3) by (simp add: isValidSuperblock_def Let_def)
qed

text \<open>
  Scenario S1: the block of height 150 submits \<open>alpha\<close>, there are no votes, the results and
  the payees at height 200 are empty, and a proof-of-stake block is valid.
\<close>

theorem isValidSuperblock_no_payees_witness:
  "run_calls toy_env toy_params [Call_processBlock (block_of [alpha_out]) 150 True] Governance_new
     = Inr alpha_store
   \<and> isSuperblock 200 toy_params \<and> IsProofOfStake toy_env pos_block
   \<and> getSuperblockPayees toy_env 200 (getSuperblockResults toy_env alpha_store 200 toy_params)
        toy_params = []
   \<and> isValidSuperblock toy_env alpha_store pos_block 200 toy_params 0 = Some (True, 0)"
proof -
  have pos: "IsProofOfStake toy_env pos_block" by (simp add: toy_env_def pos_block_def)
  have emp: "getSuperblockPayees toy_env 200
               (getSuperblockResults toy_env alpha_store 200 toy_params) toy_params = []"
    by (simp add: alpha_store_results getSuperblockPayees_def)
  have v: "isValidSuperblock toy_env alpha_store pos_block 200 toy_params 0 = Some (True, 0)"
    by (rule isValidSuperblock_no_payees[OF alpha_store_run toy_isSuperblock pos emp])
  show ?thesis
    by (intro conjI) (rule alpha_store_run toy_isSuperblock pos emp v)+
qed

text \<open>
  Claim C6. At a superblock height \<open>h\<close>, in a store that holds every proposal under its own
  hash, \<open>getSuperblockResults(h)\<close> holds exactly the proposals of superblock \<open>h\<close> whose
  tally meets the four conditions \<open>yes + no > 0\<close>, \<open>yes / (yes + no) \<ge> 0.60\<close>,
  \<open>yes + no + abstain \<ge> 0.25 * uniqueVotes\<close> and \<open>yes > 0\<close>, each with its tally;
  \<open>uniqueVotes\<close> is the amount summed over the distinct utxos of the votes, divided by
  \<open>voteBalance\<close>.
\<close>

theorem getSuperblockResults_exact:
  assumes sb: "isSuperblock h params" and keyed: "proposals_keyed env st"
  shows "(\<forall>p t. (p, t) \<in> set (getSuperblockResults env st h params) \<longleftrightarrow>
            p \<in> set (getProposals_superblock st h)
            \<and> t = getTally env (Proposal_getHash env p)
                    (snd (getProposalsForSuperblock env st h)) params
            \<and> tally_passes t
                 (static_cast_int
                    (uniqueAmount_loop (snd (getProposalsForSuperblock env st h)) [] 0
                       sdiv voteBalance params)))
         \<and> (\<forall>f. (\<forall>v\<in>set (snd (getProposalsForSuperblock env st h)). v_amount v = f (v_utxo v))
                \<longrightarrow> uniqueAmount_loop (snd (getProposalsForSuperblock env st h)) [] 0
                     = sum f (v_utxo ` set (snd (getProposalsForSuperblock env st h))))"
proof -
  let ?vs = "snd (getProposalsForSuperblock env st h)"
  let ?ps = "getProposals_superblock st h"
  let ?u = "static_cast_int (uniqueAmount_loop ?vs [] 0 sdiv voteBalance params)"
  let ?G = "\<lambda>k. getTally env k ?vs params"
  let ?r = "fold (\<lambda>p r. omap_assign (Proposal_getHash env) p (?G (Proposal_getHash env p)) r) ?ps []"
  have res: "getSuperblockResults env st h params = filter (\<lambda>it. \<not> results_erased (snd it) ?u) ?r"
    using sb by (simp add: getSuperblockResults_def Let_def getProposalsForSuperblock_fst)
  have ent: "e \<in> set ?r \<Longrightarrow> fst e \<in> set ?ps \<and> snd e = ?G (Proposal_getHash env (fst e))" for e
    by (rule fold_omap_entries[where acc="[]" and ps="?ps"]) auto
  have sub: "set ?ps \<subseteq> snd ` set (proposals st)"
    by (auto simp: getProposals_superblock_def)
  have mem: "(p, t) \<in> set (getSuperblockResults env st h params) \<longleftrightarrow>
      p \<in> set ?ps \<and> t = ?G (Proposal_getHash env p) \<and> tally_passes t ?u" for p t
  proof
    assume "(p, t) \<in> set (getSuperblockResults env st h params)"
    then have in_r: "(p, t) \<in> set ?r" and ne: "\<not> results_erased t ?u"
      by (simp_all add: res)
    from ent[OF in_r] have pt: "p \<in> set ?ps" "t = ?G (Proposal_getHash env p)" by simp_all
    have nn: "0 \<le> t_no t" using pt(2) getTally_nonneg by simp
    have "tally_passes t ?u" using ne results_erased_iff[OF nn, of ?u] by blast
    with pt show "p \<in> set ?ps \<and> t = ?G (Proposal_getHash env p) \<and> tally_passes t ?u" by simp
  next
    assume a: "p \<in> set ?ps \<and> t = ?G (Proposal_getHash env p) \<and> tally_passes t ?u"
    then obtain p' where p': "(p', t) \<in> set ?r" "Proposal_getHash env p' = Proposal_getHash env p"
      using fold_omap_complete[of p ?ps ?G "Proposal_getHash env" "[]"] by auto
    from ent[OF p'(1)] have "p' \<in> set ?ps" by simp
    then have "p' = p" using keyed_inj[OF keyed _ _ p'(2)] sub a by blast
    moreover have nn: "0 \<le> t_no t" using a getTally_nonneg by simp
    have "\<not> results_erased t ?u" using a results_erased_iff[OF nn, of ?u] by blast
    ultimately show "(p, t) \<in> set (getSuperblockResults env st h params)"
      using p'(1) by (simp add: res)
  qed
  have uq: "(\<forall>v\<in>set ?vs. v_amount v = f (v_utxo v))
      \<longrightarrow> uniqueAmount_loop ?vs [] 0 = sum f (v_utxo ` set ?vs)" for f
    using uniqueAmount_loop_sum[of ?vs f "[]" 0] by simp
  show ?thesis
  proof (intro conjI allI)
    fix p t
    show "(p, t) \<in> set (getSuperblockResults env st h params) \<longleftrightarrow>
      p \<in> set ?ps \<and> t = ?G (Proposal_getHash env p) \<and> tally_passes t ?u"
      by (rule mem)
  next
    fix f
    show "(\<forall>v\<in>set ?vs. v_amount v = f (v_utxo v))
      \<longrightarrow> uniqueAmount_loop ?vs [] 0 = sum f (v_utxo ` set ?vs)"
      by (rule uq)
  qed
qed

text \<open>
  Scenario S3: six yes votes and four no votes pass, 60 per cent being enough.
\<close>

theorem getSuperblockResults_exact_witness:
  "isSuperblock 200 toy_params \<and> proposals_keyed toy_env (store_of [vote_yes, vote_no])
   \<and> (P_alpha, \<lparr>t_cyes = 600000000, t_cno = 400000000, t_cabstain = 0, t_yes = 6, t_no = 4,
                 t_abstain = 0\<rparr>)
        \<in> set (getSuperblockResults toy_env (store_of [vote_yes, vote_no]) 200 toy_params)"
proof -
  have p: "P_alpha \<in> set (getProposals_superblock (store_of [vote_yes, vote_no]) 200)"
    by (simp add: getProposals_superblock_def store_of_def P_alpha_def)
  have "(P_alpha, getTally toy_env (Proposal_getHash toy_env P_alpha)
                    (snd (getProposalsForSuperblock toy_env (store_of [vote_yes, vote_no]) 200)) toy_params)
          \<in> set (getSuperblockResults toy_env (store_of [vote_yes, vote_no]) 200 toy_params)
        \<longleftrightarrow> P_alpha \<in> set (getProposals_superblock (store_of [vote_yes, vote_no]) 200)
            \<and> tally_passes (getTally toy_env (Proposal_getHash toy_env P_alpha)
                    (snd (getProposalsForSuperblock toy_env (store_of [vote_yes, vote_no]) 200)) toy_params)
                 (static_cast_int
                    (uniqueAmount_loop (snd (getProposalsForSuperblock toy_env (store_of [vote_yes, vote_no]) 200)) [] 0
                       sdiv voteBalance toy_params))"
    using getSuperblockResults_exact [OF toy_isSuperblock store_keyed, of "[vote_yes, vote_no]"]
    by simp
  then have "(P_alpha, \<lparr>t_cyes = 600000000, t_cno = 400000000, t_cabstain = 0, t_yes = 6, t_no = 4,
                 t_abstain = 0\<rparr>)
        \<in> set (getSuperblockResults toy_env (store_of [vote_yes, vote_no]) 200 toy_params)"
    unfolding forSuperblock2 snd_conv getTally2 uniqueVotes2 using p passes_6_4 by simp
  then show ?thesis
    using toy_isSuperblock store_keyed[of "[vote_yes, vote_no]"] by simp
qed

text \<open>
  Claim C7. \<open>getSuperblockPayees\<close> is the greedy fill of the budget
  \<open>min(proposalMaxAmount, blockSubsidy(h))\<close> over the results sorted by net yes votes
  (yes less no) descending, then yes votes descending, then block number ascending: the
  sorted list is a permutation of the results in that order, a proposal that fits what
  remains is emitted and deducted, and one that does not fit is skipped while later ones may
  still be included.
\<close>

theorem getSuperblockPayees_sorted_greedy:
  "getSuperblockPayees env sb results params
     = greedy_fill env (min (proposalMaxAmount params) (GetBlockSubsidy params sb))
         (std_sort payee_less results)
   \<and> mset (std_sort payee_less results) = mset results
   \<and> sorted_wrt payee_order (std_sort payee_less results)"
proof -
  have "results = [] \<Longrightarrow> std_sort payee_less results = []"
    by (simp add: std_sort_def)
  then show ?thesis
    by (auto simp add: getSuperblockPayees_def payees_loop_greedy sorted_std_sort Let_def)
qed

text \<open>
  Scenario S4: \<open>alpha\<close> asks 100 with 12 yes and 7 no votes (5 net), \<open>beta\<close> asks 50 with
  11 yes and 1 no (10 net). The order is \<open>beta\<close>, \<open>alpha\<close>, against the order of the yes
  votes alone; a budget of 120 pays \<open>beta\<close> alone, a budget of 150 pays both.
\<close>

theorem getSuperblockPayees_sorted_greedy_witness:
  "std_sort payee_less
     [(P_alpha, Tally_default\<lparr>t_yes := 12, t_no := 7\<rparr>), (P_beta, Tally_default\<lparr>t_yes := 11, t_no := 1\<rparr>)]
     = [(P_beta, Tally_default\<lparr>t_yes := 11, t_no := 1\<rparr>), (P_alpha, Tally_default\<lparr>t_yes := 12, t_no := 7\<rparr>)]
   \<and> getSuperblockPayees toy_env 200
        [(P_alpha, Tally_default\<lparr>t_yes := 12, t_no := 7\<rparr>), (P_beta, Tally_default\<lparr>t_yes := 11, t_no := 1\<rparr>)]
        (toy_params\<lparr>proposalMaxAmount := 120\<rparr>)
      = [\<lparr>nValue = 50, scriptPubKey = map of_char ''addr''\<rparr>]
   \<and> getSuperblockPayees toy_env 200
        [(P_alpha, Tally_default\<lparr>t_yes := 12, t_no := 7\<rparr>), (P_beta, Tally_default\<lparr>t_yes := 11, t_no := 1\<rparr>)]
        (toy_params\<lparr>proposalMaxAmount := 150\<rparr>)
      = [\<lparr>nValue = 50, scriptPubKey = map of_char ''addr''\<rparr>,
         \<lparr>nValue = 100, scriptPubKey = map of_char ''addr''\<rparr>]"
proof -
  have s: "std_sort payee_less
     [(P_alpha, Tally_default\<lparr>t_yes := 12, t_no := 7\<rparr>), (P_beta, Tally_default\<lparr>t_yes := 11, t_no := 1\<rparr>)]
     = [(P_beta, Tally_default\<lparr>t_yes := 11, t_no := 1\<rparr>), (P_alpha, Tally_default\<lparr>t_yes := 12, t_no := 7\<rparr>)]"
    by (simp add: std_sort_def payee_less_def netyes_def Tally_default_def)
  have g: "greedy_fill toy_env 120
              [(P_beta, Tally_default\<lparr>t_yes := 11, t_no := 1\<rparr>), (P_alpha, Tally_default\<lparr>t_yes := 12, t_no := 7\<rparr>)]
            = [\<lparr>nValue = 50, scriptPubKey = map of_char ''addr''\<rparr>]"
       "greedy_fill toy_env 150
              [(P_beta, Tally_default\<lparr>t_yes := 11, t_no := 1\<rparr>), (P_alpha, Tally_default\<lparr>t_yes := 12, t_no := 7\<rparr>)]
            = [\<lparr>nValue = 50, scriptPubKey = map of_char ''addr''\<rparr>,
               \<lparr>nValue = 100, scriptPubKey = map of_char ''addr''\<rparr>]"
    by (simp_all add: payee_out_def toy_env_def P_alpha_def P_beta_def)
  have m: "min (proposalMaxAmount (toy_params\<lparr>proposalMaxAmount := 120\<rparr>))
             (GetBlockSubsidy (toy_params\<lparr>proposalMaxAmount := 120\<rparr>) 200) = 120"
       "min (proposalMaxAmount (toy_params\<lparr>proposalMaxAmount := 150\<rparr>))
             (GetBlockSubsidy (toy_params\<lparr>proposalMaxAmount := 150\<rparr>) 200) = 150"
    by (simp_all add: toy_params_def)
  show ?thesis
    using getSuperblockPayees_sorted_greedy [of toy_env 200
        "[(P_alpha, Tally_default\<lparr>t_yes := 12, t_no := 7\<rparr>), (P_beta, Tally_default\<lparr>t_yes := 11, t_no := 1\<rparr>)]"
        "toy_params\<lparr>proposalMaxAmount := 120\<rparr>"]
      getSuperblockPayees_sorted_greedy [of toy_env 200
        "[(P_alpha, Tally_default\<lparr>t_yes := 12, t_no := 7\<rparr>), (P_beta, Tally_default\<lparr>t_yes := 11, t_no := 1\<rparr>)]"
        "toy_params\<lparr>proposalMaxAmount := 150\<rparr>"]
    unfolding s m g by blast
qed

text \<open>
  Claim C8. The votes \<open>getTally\<close> counts, taken over all the sub-tallies, have pairwise
  different hashes: no vote stands in two sub-tallies or twice in one. Each of them is a vote
  of the input on the proposal, the final tally is the sum of the sub-tallies of these
  groups, and its three amounts are the amounts of the counted votes of each kind, each vote
  once.
\<close>

theorem getTally_counts_each_vote_once:
  "distinct (map (Vote_getHash env) (concat (tally_groups env p vs)))
   \<and> set (concat (tally_groups env p vs)) \<subseteq> {v \<in> set vs. v_proposal v = p}
   \<and> getTally env p vs params
       = fold tally_sum (map (userTally params) (tally_groups env p vs)) Tally_default
   \<and> t_cyes (getTally env p vs params) = amount_of YES (concat (tally_groups env p vs))
   \<and> t_cno (getTally env p vs params) = amount_of NO (concat (tally_groups env p vs))
   \<and> t_cabstain (getTally env p vs params) = amount_of ABSTAIN (concat (tally_groups env p vs))"
  using tally_groups_inv[of env p vs] getTally_groups[of env p vs params]
    fold_tally_sum_amounts[of params "tally_groups env p vs" Tally_default]
  by (simp add: Tally_default_def)

text \<open>
  The claim at the votes of scenario S3 with the yes vote handed in twice: it is counted
  once.
\<close>

theorem getTally_counts_each_vote_once_witness:
  "tally_groups toy_env (Proposal_getHash toy_env P_alpha) [vote_yes, vote_yes, vote_no]
     = [[vote_yes], [vote_no]]
   \<and> distinct (map (Vote_getHash toy_env) [vote_yes, vote_no])
   \<and> t_cyes (getTally toy_env (Proposal_getHash toy_env P_alpha) [vote_yes, vote_yes, vote_no]
               toy_params) = 600000000
   \<and> t_cno (getTally toy_env (Proposal_getHash toy_env P_alpha) [vote_yes, vote_yes, vote_no]
               toy_params) = 400000000"
proof -
  have a: "amount_of YES [vote_yes, vote_no] = 600000000" "amount_of NO [vote_yes, vote_no] = 400000000"
    by (simp_all add: amount_of_def vote_yes_def vote_no_def vote_fields YES_def NO_def)
  show ?thesis
    using getTally_counts_each_vote_once [of toy_env "Proposal_getHash toy_env P_alpha"
        "[vote_yes, vote_yes, vote_no]" toy_params]
    unfolding groups3 by (simp add: a userTally_yes userTally_no tally_sum_def Tally_default_def)
qed

text \<open>
  Claim C9, as amended. For a vote of the store that is not marked spent, \<open>spendVote\<close>
  followed by \<open>unspendVote\<close> with the same height and transaction hash leaves the state as
  it was; and \<open>unspendVote\<close> changes nothing unless the recorded spent block and spent hash
  are exactly the height and hash it is given.
\<close>

theorem spendVote_unspendVote_unspent:
  assumes "deref st ptr = Some v" and "map_of (votes st) (Vote_getHash env v) = Some v"
  shows "(v_spentBlock v = 0 \<and> v_spentHash v = uint256_null \<longrightarrow>
            Option.bind (spendVote_ptr env st ptr h t) (\<lambda>s. unspendVote_ptr env s ptr h t) = Some st)
         \<and> (\<not> (v_spentBlock v = h \<and> v_spentHash v = t) \<longrightarrow>
              unspendVote_ptr env st ptr h t = Some st)"
proof (intro conjI impI)
  assume u: "v_spentBlock v = 0 \<and> v_spentHash v = uint256_null"
  then have c: "v\<lparr>v_spentBlock := 0, v_spentHash := uint256_null\<rparr> = v" by simp
  show "Option.bind (spendVote_ptr env st ptr h t) (\<lambda>s. unspendVote_ptr env s ptr h t) = Some st"
  proof (cases "umap_count (proposals st) (v_proposal v)
      \<and> \<not> h > p_superblock (umap_index Proposal_default (proposals st) (v_proposal v))")
    case True
    then show ?thesis
      using spend_unspend_result[OF assms, of h t] assms
      by (simp add: c assign_deref AList.update_triv)
  next
    case False
    then have "spendVote_ptr env st ptr h t = Some st" "unspendVote_ptr env st ptr h t = Some st"
      using assms(1) by (auto simp add: spendVote_ptr_def unspendVote_ptr_def)
    then show ?thesis by simp
  qed
next
  assume "\<not> (v_spentBlock v = h \<and> v_spentHash v = t)"
  then show "unspendVote_ptr env st ptr h t = Some st"
    using assms
    by (simp add: unspendVote_ptr_def Let_def Vote_unspend_other assign_deref umap_index_def
        AList.update_triv)
qed

text \<open>The amended claim at an unspent vote of scenario S3, spent by a block of height 160.\<close>

theorem spendVote_unspendVote_unspent_witness:
  "deref (store_of [vote_yes]) (200, Vote_getHash toy_env vote_yes) = Some vote_yes
   \<and> map_of (votes (store_of [vote_yes])) (Vote_getHash toy_env vote_yes) = Some vote_yes
   \<and> v_spentBlock vote_yes = 0 \<and> v_spentHash vote_yes = uint256_null
   \<and> Option.bind (spendVote_ptr toy_env (store_of [vote_yes]) (200, Vote_getHash toy_env vote_yes) 160 (replicate 32 50))
        (\<lambda>s. unspendVote_ptr toy_env s (200, Vote_getHash toy_env vote_yes) 160 (replicate 32 50))
      = Some (store_of [vote_yes])
   \<and> unspendVote_ptr toy_env (store_of [vote_yes]) (200, Vote_getHash toy_env vote_yes) 170 (replicate 32 50)
      = Some (store_of [vote_yes])"
proof -
  have u: "v_spentBlock vote_yes = 0 \<and> v_spentHash vote_yes = uint256_null"
    by (simp add: vote_yes_def mk_vote_def)
  have n: "\<not> (v_spentBlock vote_yes = 170 \<and> v_spentHash vote_yes = replicate 32 50)"
    by (simp add: vote_yes_def mk_vote_def)
  show ?thesis
    using spendVote_unspendVote_unspent [OF deref_store_of_hd votes_store_of_hd, of vote_yes "[]" 160 "replicate 32 50"]
      spendVote_unspendVote_unspent [OF deref_store_of_hd votes_store_of_hd, of vote_yes "[]" 170 "replicate 32 50"]
      u n deref_store_of_hd[of vote_yes "[]"] votes_store_of_hd[of vote_yes "[]"]
    by blast
qed

text \<open>
  Claim C9 as stated fails for a vote that is marked spent already: the vote was spent at
  height 160; spending it at height 170 and unspending that clears the marker of height 160.
\<close>

theorem spendVote_unspendVote_spent_vote:
  "Option.bind (spendVote_ptr toy_env (store_of [vote_spent]) (200, Vote_getHash toy_env vote_spent) 170 (replicate 32 51))
        (\<lambda>s. unspendVote_ptr toy_env s (200, Vote_getHash toy_env vote_spent) 170 (replicate 32 51))
   \<noteq> Some (store_of [vote_spent])"
proof -
  have p: "umap_count (proposals (store_of [vote_spent])) (v_proposal vote_spent)"
    by (simp add: store_of_def umap_count_def vote_spent_def mk_vote_def)
  have h: "\<not> 170 > p_superblock (umap_index Proposal_default (proposals (store_of [vote_spent])) (v_proposal vote_spent))"
    by (simp add: store_of_def umap_index_def vote_spent_def mk_vote_def P_alpha_def)
  have v: "votes (store_of [vote_spent]) \<noteq> AList.update (Vote_getHash toy_env vote_spent)
          (vote_spent\<lparr>v_spentBlock := 0, v_spentHash := uint256_null\<rparr>) (votes (store_of [vote_spent]))"
    using marker_ne by (simp add: store_of_def)
  show ?thesis
  proof
    assume "Option.bind (spendVote_ptr toy_env (store_of [vote_spent]) (200, Vote_getHash toy_env vote_spent) 170 (replicate 32 51))
        (\<lambda>s. unspendVote_ptr toy_env s (200, Vote_getHash toy_env vote_spent) 170 (replicate 32 51))
        = Some (store_of [vote_spent])"
    then have "(assign (store_of [vote_spent]) (200, Vote_getHash toy_env vote_spent)
                 (vote_spent\<lparr>v_spentBlock := 0, v_spentHash := uint256_null\<rparr>))
                \<lparr>votes := AList.update (Vote_getHash toy_env vote_spent)
                     (vote_spent\<lparr>v_spentBlock := 0, v_spentHash := uint256_null\<rparr>)
                     (votes (store_of [vote_spent]))\<rparr> = store_of [vote_spent]"
      unfolding spend_unspend_result[OF deref_store_of_hd votes_store_of_hd p h] by simp
    then have "votes ((assign (store_of [vote_spent]) (200, Vote_getHash toy_env vote_spent)
                 (vote_spent\<lparr>v_spentBlock := 0, v_spentHash := uint256_null\<rparr>))
                \<lparr>votes := AList.update (Vote_getHash toy_env vote_spent)
                     (vote_spent\<lparr>v_spentBlock := 0, v_spentHash := uint256_null\<rparr>)
                     (votes (store_of [vote_spent]))\<rparr>) = votes (store_of [vote_spent])"
      by (rule arg_cong)
    with v show False by simp
  qed
qed

text \<open>
  Claim C10. \<open>getVotes()\<close>, \<open>getVotes(proposalHash)\<close>, \<open>getVotes(superblock)\<close> and
  \<open>getMutableSBVotes(proposalHash)\<close> return only votes that are not marked spent: the
  test \<open>spent()\<close> is false on each, and their \<open>spentBlock\<close>, a height and so not
  negative, is 0. A pointer of \<open>getMutableSBVotes\<close> reaches such a vote in a store whose
  maps hold each key once. The queries are functions of the state and leave it as it is, and
  the votes \<open>getProposalsForSuperblock\<close> hands to the tally are unspent.
\<close>

theorem vote_queries_only_unspent:
  "(\<forall>v\<in>set (getVotes st). \<not> Vote_spent v \<and> (0 \<le> v_spentBlock v \<longrightarrow> v_spentBlock v = 0))
   \<and> (\<forall>v\<in>set (getVotes_proposal st ph).
         \<not> Vote_spent v \<and> (0 \<le> v_spentBlock v \<longrightarrow> v_spentBlock v = 0))
   \<and> (\<forall>v\<in>set (getVotes_superblock st sb).
         \<not> Vote_spent v \<and> (0 \<le> v_spentBlock v \<longrightarrow> v_spentBlock v = 0))
   \<and> (Governance_wf st \<longrightarrow>
        (\<forall>ptr\<in>set (getMutableSBVotes st ph).
           \<exists>v. deref st ptr = Some v \<and> \<not> Vote_spent v
               \<and> (0 \<le> v_spentBlock v \<longrightarrow> v_spentBlock v = 0)))
   \<and> (\<forall>v\<in>set (snd (getProposalsForSuperblock env st sb)). \<not> Vote_spent v)"
proof -
  have z: "\<not> Vote_spent v \<Longrightarrow> 0 \<le> v_spentBlock v \<longrightarrow> v_spentBlock v = 0" for v
    by (simp add: nspent)
  have p: "Governance_wf st \<Longrightarrow> ptr \<in> set (getMutableSBVotes st ph) \<Longrightarrow>
      \<exists>v. deref st ptr = Some v \<and> \<not> Vote_spent v \<and> (0 \<le> v_spentBlock v \<longrightarrow> v_spentBlock v = 0)" for ptr
    using getMutableSBVotes_unspent[of st ptr ph] z by blast
  show ?thesis
    using getVotes_unspent[of _ st] getVotes_proposal_unspent[of _ st ph]
      getVotes_superblock_unspent[of _ st sb] getProposalsForSuperblock_unspent[of _ env st sb] z p
    by blast
qed

text \<open>
  The claim at a store that holds an unspent and a spent vote: the spent vote is in the
  \<open>votes\<close> map and in no answer.
\<close>

theorem vote_queries_only_unspent_witness:
  "Vote_spent vote_spent
   \<and> vote_spent \<in> snd ` set (votes (store_of [vote_yes, vote_spent]))
   \<and> vote_spent \<notin> set (getVotes (store_of [vote_yes, vote_spent]))
   \<and> vote_spent \<notin> set (getVotes_proposal (store_of [vote_yes, vote_spent])
                          (Proposal_getHash toy_env P_alpha))
   \<and> vote_spent \<notin> set (getVotes_superblock (store_of [vote_yes, vote_spent]) 200)
   \<and> vote_spent \<notin> set (snd (getProposalsForSuperblock toy_env (store_of [vote_yes, vote_spent]) 200))
   \<and> Governance_wf (store_of [vote_yes, vote_spent])
   \<and> (\<exists>v. deref (store_of [vote_yes, vote_spent]) (200, Vote_getHash toy_env vote_yes) = Some v
          \<and> \<not> Vote_spent v)"
proof -
  have s: "Vote_spent vote_spent" by (simp add: Vote_spent_def vote_spent_def)
  have m: "vote_spent \<in> snd ` set (votes (store_of [vote_yes, vote_spent]))"
    by (simp add: store_of_def)
  have i: "(200, Vote_getHash toy_env vote_yes)
      \<in> set (getMutableSBVotes (store_of [vote_yes, vote_spent]) (Proposal_getHash toy_env P_alpha))"
    by (simp add: store_two_ptrs)
  show ?thesis
    using vote_queries_only_unspent [of "store_of [vote_yes, vote_spent]"
        "Proposal_getHash toy_env P_alpha" 200 toy_env] s m i store_two_wf
    by blast
qed

end
